theory Spec2Isabelle
  imports Main
begin

section \<open>The process table of kernel/proc.c\<close>

text \<open>
  \<^verbatim>\<open>enum procstate\<close> and \<^verbatim>\<open>struct proc\<close> are declared in proc.h, and the table
  is \<^verbatim>\<open>struct proc proc[NPROC]\<close>. A pointer into the table is the index of the slot it
  points to; the null pointer is \<open>None\<close>.
\<close>

datatype procstate = UNUSED | USED | SLEEPING | RUNNABLE | RUNNING | ZOMBIE

text \<open>The scheduling policy is fixed when the kernel is built (\<^verbatim>\<open>#ifdef\<close>).\<close>

datatype policy = DEFAULT | FCFS | PBS | MLFQ

text \<open>
  A sleep channel is a \<^verbatim>\<open>void *\<close>: the null pointer, the address of a slot of the
  table, or any other kernel address.
\<close>

datatype chan = NoChan | ProcChan nat | AddrChan nat

fun chan_of :: "nat option \<Rightarrow> chan" where
  "chan_of None = NoChan"
| "chan_of (Some i) = ProcChan i"

text \<open>
  Modelled from the spec: the declaration of \<^verbatim>\<open>struct proc\<close> (proc.h) is not among the
  sources. The fields are the ones proc.c reads and writes; tick counts, priorities and
  counters are C integers (the spec's ``integer arithmetic''), each held as its value.
  A page or a page table is an opaque handle; \<open>name\<close> is the C string held in the
  \<^verbatim>\<open>name\<close> array.
\<close>

record proc =
  state :: procstate
  chan :: chan
  killed :: int
  xstate :: int
  pid :: int
  parent :: "nat option"
  sz :: int
  pagetable :: "nat option"
  trapframe :: "nat option"
  ofile :: "nat option list"
  cwd :: "nat option"
  name :: string
  rtime :: int
  etime :: int
  ctime :: int
  start_time :: int
  Static_priority :: int
  Times_scheduled :: int
  running_time :: int
  sleeping_time :: int
  priority_number :: int
  time_added :: int
  no_of_ticks :: int
  No_times :: int

text \<open>A slot of the zero-initialised table, before any use.\<close>

definition zero_proc :: proc where
  "zero_proc = \<lparr> state = UNUSED, chan = NoChan, killed = 0, xstate = 0, pid = 0,
     parent = None, sz = 0, pagetable = None, trapframe = None, ofile = [], cwd = None,
     name = [], rtime = 0, etime = 0, ctime = 0, start_time = 0, Static_priority = 0,
     Times_scheduled = 0, running_time = 0, sleeping_time = 0, priority_number = 0,
     time_added = 0, no_of_ticks = 0, No_times = 0 \<rparr>"

section \<open>PBS: the dynamic priority\<close>

datatype fault = DivByZero

text \<open>
  An \<^verbatim>\<open>int\<close> has 32 bits. \<open>to_int\<close> is the \<^verbatim>\<open>int\<close> that the low 32 bits of a
  result stand for (the cast \<^verbatim>\<open>(int)\<close>, and what the 32-bit multiply, add and
  subtract of the target leave); \<open>in_int\<close> says that a result needs no wrapping.
\<close>

definition to_int :: "int \<Rightarrow> int" where
  "to_int x = (x + 2 ^ 31) mod 2 ^ 32 - 2 ^ 31"

definition in_int :: "int \<Rightarrow> bool" where
  "in_int x \<longleftrightarrow> - (2 ^ 31) \<le> x \<and> x < 2 ^ 31"

text \<open>C's \<^verbatim>\<open>/\<close> on integers truncates towards zero; a zero divisor is undefined.\<close>

definition trunc_div :: "int \<Rightarrow> int \<Rightarrow> int" where
  "trunc_div a b = (if (a < 0) = (b < 0) then \<bar>a\<bar> div \<bar>b\<bar> else - (\<bar>a\<bar> div \<bar>b\<bar>))"

definition c_div :: "int \<Rightarrow> int \<Rightarrow> fault + int" where
  "c_div a b = (if b = 0 then Inl DivByZero else Inr (to_int (trunc_div a b)))"

definition PSBPriority :: "proc \<Rightarrow> fault + int" where
  "PSBPriority p =
     (case (if sleeping_time p = -1 \<and> running_time p = -1 then Inr 5
            else c_div (to_int (sleeping_time p * 10))
                   (to_int (running_time p + sleeping_time p))) of
        Inl e \<Rightarrow> Inl e
      | Inr niceness \<Rightarrow>
          (let Value = to_int (to_int (Static_priority p - niceness) + 5)
           in if Value > 100 then Inr 100 else if Value < 0 then Inr 0 else Inr Value))"

text \<open>The spec's \<open>clamp(value, lo, hi)\<close>.\<close>

definition clamp :: "int \<Rightarrow> int \<Rightarrow> int \<Rightarrow> int" where
  "clamp v lo hi = max lo (min v hi)"

section \<open>The kernel state\<close>

text \<open>
  The part of the kernel that proc.c works on: the table \<^verbatim>\<open>proc\<close>, \<^verbatim>\<open>initproc\<close>,
  the tick counter, the pages handed back to \<^verbatim>\<open>kfree\<close> and the page tables handed
  back to \<^verbatim>\<open>proc_freepagetable\<close> (each with the size it was freed with), in call
  order, and user memory, which only \<^verbatim>\<open>copyout\<close> touches.
\<close>

record 'm kstate =
  proc :: "proc list"
  initproc :: "nat option"
  ticks :: int
  kfreed :: "nat list"
  pagetables_freed :: "(nat \<times> int) list"
  umem :: 'm

definition NPROC :: "'m kstate \<Rightarrow> nat" where
  "NPROC s = length (proc s)"

text \<open>An assignment through a pointer \<^verbatim>\<open>p = &proc[i]\<close>.\<close>

definition upd :: "nat \<Rightarrow> (proc \<Rightarrow> proc) \<Rightarrow> 'm kstate \<Rightarrow> 'm kstate" where
  "upd i f s = s\<lparr>proc := (proc s)[i := f (proc s ! i)]\<rparr>"

text \<open>
  \<^verbatim>\<open>copyout\<close> (vm.c) is not among the sources: it is a parameter, given the page
  table, the user address and the value to store; \<open>None\<close> is its return value \<open>-1\<close>.
\<close>

type_synonym 'm copyout = "nat option \<Rightarrow> int \<Rightarrow> int \<Rightarrow> 'm \<Rightarrow> 'm option"

subsection \<open>Leaving the processor\<close>

text \<open>
  A call made by a process ends in one of three ways: it returns, the kernel panics, or
  the process has switched to the scheduler in \<^verbatim>\<open>sched\<close> and has not been resumed.
  What the rest of the system does to the kernel state while a process is switched out
  is an environment step; \<open>None\<close> stands for a process that is never resumed.
\<close>

datatype panic = Init_exiting | Zombie_exit | Sched_running

datatype 'a result = Returns 'a | Panics panic | Blocked

type_synonym 'm env = "'m kstate \<Rightarrow> 'm kstate"

text \<open>Passing on the result of a callee that did not return.\<close>

fun stopped :: "unit result \<Rightarrow> 'a result" where
  "stopped (Panics e) = Panics e"
| "stopped r = Blocked"

text \<open>
  \<^verbatim>\<open>sched\<close>: of its four checks the one on \<^verbatim>\<open>p->state\<close> is on the table; the others
  are on locks and the interrupt flag, which are not part of this state.
\<close>

definition sched :: "'m env option \<Rightarrow> nat \<Rightarrow> 'm kstate \<Rightarrow> unit result \<times> 'm kstate" where
  "sched resume me s =
     (if state (proc s ! me) = RUNNING then (Panics Sched_running, s)
      else case resume of None \<Rightarrow> (Blocked, s) | Some env \<Rightarrow> (Returns (), env s))"

definition yield :: "'m env option \<Rightarrow> nat \<Rightarrow> 'm kstate \<Rightarrow> unit result \<times> 'm kstate" where
  "yield resume me s = sched resume me (upd me (\<lambda>p. p\<lparr>state := RUNNABLE\<rparr>) s)"

subsection \<open>sleep and wakeup\<close>

definition sleep_mark :: "policy \<Rightarrow> int \<Rightarrow> chan \<Rightarrow> proc \<Rightarrow> proc" where
  "sleep_mark pol t c p =
     (let p1 = p\<lparr>chan := c, state := SLEEPING\<rparr>
      in if pol = PBS then p1\<lparr>running_time := t - running_time p1, sleeping_time := t\<rparr>
         else p1)"

definition sleep ::
    "policy \<Rightarrow> 'm env option \<Rightarrow> nat \<Rightarrow> chan \<Rightarrow> 'm kstate \<Rightarrow> unit result \<times> 'm kstate" where
  "sleep pol resume me c s =
     (case sched resume me (upd me (sleep_mark pol (ticks s) c) s) of
        (Returns u, s') \<Rightarrow> (Returns (), upd me (\<lambda>p. p\<lparr>chan := NoChan\<rparr>) s')
      | (r, s') \<Rightarrow> (r, s'))"

definition wakeup_slot :: "policy \<Rightarrow> int \<Rightarrow> chan \<Rightarrow> proc \<Rightarrow> proc" where
  "wakeup_slot pol t c p =
     (if state p = SLEEPING \<and> chan p = c then
        (let p1 = p\<lparr>state := RUNNABLE\<rparr>;
             p2 = (if pol = PBS then p1\<lparr>sleeping_time := t - sleeping_time p1\<rparr> else p1)
         in if pol = MLFQ then p2\<lparr>time_added := t, no_of_ticks := 0\<rparr> else p2)
      else p)"

text \<open>The loop of \<^verbatim>\<open>wakeup\<close>, at slot \<open>i\<close>; \<open>me\<close> is \<^verbatim>\<open>myproc()\<close>.\<close>

fun wakeup_from :: "policy \<Rightarrow> int \<Rightarrow> nat option \<Rightarrow> chan \<Rightarrow> nat \<Rightarrow> proc list \<Rightarrow> proc list" where
  "wakeup_from pol t me c i [] = []"
| "wakeup_from pol t me c i (p # ps) =
     (if Some i \<noteq> me then wakeup_slot pol t c p else p) # wakeup_from pol t me c (Suc i) ps"

definition wakeup :: "policy \<Rightarrow> nat option \<Rightarrow> chan \<Rightarrow> 'm kstate \<Rightarrow> 'm kstate" where
  "wakeup pol me c s = s\<lparr>proc := wakeup_from pol (ticks s) me c 0 (proc s)\<rparr>"

subsection \<open>freeproc, wait and waitx\<close>

definition freeproc :: "nat \<Rightarrow> 'm kstate \<Rightarrow> 'm kstate" where
  "freeproc i s =
     (let p = proc s ! i;
          s1 = (case trapframe p of None \<Rightarrow> s | Some a \<Rightarrow> s\<lparr>kfreed := kfreed s @ [a]\<rparr>);
          s2 = (case pagetable p of None \<Rightarrow> s1
                | Some t \<Rightarrow> s1\<lparr>pagetables_freed := pagetables_freed s1 @ [(t, sz p)]\<rparr>)
      in upd i (\<lambda>p. p\<lparr>trapframe := None, pagetable := None, sz := 0, pid := 0,
                      parent := None, name := [], chan := NoChan, killed := 0,
                      xstate := 0, state := UNUSED\<rparr>) s2)"

text \<open>
  The scan of the table in \<^verbatim>\<open>wait\<close>, at slot \<open>i\<close>: it stops at the first child of
  \<open>me\<close> that is a zombie, and otherwise ends with \<^verbatim>\<open>havekids\<close>.
\<close>

datatype scan = Found nat | NoZombie bool

fun wait_scan :: "nat \<Rightarrow> nat \<Rightarrow> proc list \<Rightarrow> bool \<Rightarrow> scan" where
  "wait_scan me i [] havekids = NoZombie havekids"
| "wait_scan me i (np # nps) havekids =
     (if parent np = Some me then
        (if state np = ZOMBIE then Found i else wait_scan me (Suc i) nps True)
      else wait_scan me (Suc i) nps havekids)"

text \<open>
  One turn of the \<^verbatim>\<open>for(;;)\<close> loop of \<^verbatim>\<open>wait\<close>, up to its call of \<^verbatim>\<open>sleep\<close>:
  \<open>Some\<close> of the value returned and the state, or \<open>None\<close> when the caller goes to sleep.
\<close>

definition wait_once ::
    "'m copyout \<Rightarrow> nat \<Rightarrow> int \<Rightarrow> 'm kstate \<Rightarrow> (int \<times> 'm kstate) option" where
  "wait_once copyout me addr s =
     (case wait_scan me 0 (proc s) False of
        Found i \<Rightarrow>
          (let np = proc s ! i; pid' = pid np
           in if addr \<noteq> 0 then
                (case copyout (pagetable (proc s ! me)) addr (xstate np) (umem s) of
                   None \<Rightarrow> Some (-1, s)
                 | Some m \<Rightarrow> Some (pid', freeproc i (s\<lparr>umem := m\<rparr>)))
              else Some (pid', freeproc i s))
      | NoZombie havekids \<Rightarrow>
          (if \<not> havekids \<or> killed (proc s ! me) \<noteq> 0 then Some (-1, s) else None))"

text \<open>
  \<^verbatim>\<open>wait\<close>: one environment step for each time the caller is resumed from its sleep
  on \<^verbatim>\<open>wait_lock\<close>; when they are used up the caller stays asleep.
\<close>

fun wait ::
    "'m copyout \<Rightarrow> policy \<Rightarrow> 'm env list \<Rightarrow> nat \<Rightarrow> int \<Rightarrow> 'm kstate \<Rightarrow> int result \<times> 'm kstate" where
  "wait copyout pol [] me addr s =
     (case wait_once copyout me addr s of
        Some (r, s') \<Rightarrow> (Returns r, s')
      | None \<Rightarrow> (case sleep pol None me (ProcChan me) s of (r, s') \<Rightarrow> (stopped r, s')))"
| "wait copyout pol (env # envs) me addr s =
     (case wait_once copyout me addr s of
        Some (r, s') \<Rightarrow> (Returns r, s')
      | None \<Rightarrow>
          (case sleep pol (Some env) me (ProcChan me) s of
             (Returns u, s') \<Rightarrow> wait copyout pol envs me addr s'
           | (r, s') \<Rightarrow> (stopped r, s')))"

text \<open>
  \<^verbatim>\<open>waitx\<close> also stores through \<^verbatim>\<open>uint *rtime\<close> and \<^verbatim>\<open>uint *wtime\<close>, before it
  tries \<^verbatim>\<open>copyout\<close>: the second component is what it stored, if it did.
\<close>

definition uint :: "int \<Rightarrow> int" where
  "uint x = x mod 2 ^ 32"

definition waitx_once ::
    "'m copyout \<Rightarrow> nat \<Rightarrow> int \<Rightarrow> 'm kstate \<Rightarrow> (int \<times> (int \<times> int) option \<times> 'm kstate) option" where
  "waitx_once copyout me addr s =
     (case wait_scan me 0 (proc s) False of
        Found i \<Rightarrow>
          (let np = proc s ! i; pid' = pid np;
               out = Some (uint (rtime np), uint (etime np - ctime np - rtime np))
           in if addr \<noteq> 0 then
                (case copyout (pagetable (proc s ! me)) addr (xstate np) (umem s) of
                   None \<Rightarrow> Some (-1, out, s)
                 | Some m \<Rightarrow> Some (pid', out, freeproc i (s\<lparr>umem := m\<rparr>)))
              else Some (pid', out, freeproc i s))
      | NoZombie havekids \<Rightarrow>
          (if \<not> havekids \<or> killed (proc s ! me) \<noteq> 0 then Some (-1, None, s) else None))"

fun waitx ::
    "'m copyout \<Rightarrow> policy \<Rightarrow> 'm env list \<Rightarrow> nat \<Rightarrow> int \<Rightarrow> 'm kstate
       \<Rightarrow> int result \<times> (int \<times> int) option \<times> 'm kstate" where
  "waitx copyout pol [] me addr s =
     (case waitx_once copyout me addr s of
        Some (r, out, s') \<Rightarrow> (Returns r, out, s')
      | None \<Rightarrow> (case sleep pol None me (ProcChan me) s of (r, s') \<Rightarrow> (stopped r, None, s')))"
| "waitx copyout pol (env # envs) me addr s =
     (case waitx_once copyout me addr s of
        Some (r, out, s') \<Rightarrow> (Returns r, out, s')
      | None \<Rightarrow>
          (case sleep pol (Some env) me (ProcChan me) s of
             (Returns u, s') \<Rightarrow> waitx copyout pol envs me addr s'
           | (r, s') \<Rightarrow> (stopped r, None, s')))"

subsection \<open>reparent, exit and kill\<close>

text \<open>
  The body of the loop of \<^verbatim>\<open>reparent\<close> at slot \<open>i\<close>, and the loop with \<open>n\<close> slots
  left. Its call of \<^verbatim>\<open>wakeup\<close> runs over the whole table; \<open>me\<close> is
  \<^verbatim>\<open>myproc()\<close> there.
\<close>

definition reparent_step :: "policy \<Rightarrow> nat \<Rightarrow> nat \<Rightarrow> nat \<Rightarrow> 'm kstate \<Rightarrow> 'm kstate" where
  "reparent_step pol me p i s =
     (if parent (proc s ! i) = Some p then
        wakeup pol (Some me) (chan_of (initproc s)) (upd i (\<lambda>pp. pp\<lparr>parent := initproc s\<rparr>) s)
      else s)"

fun reparent_from :: "policy \<Rightarrow> nat \<Rightarrow> nat \<Rightarrow> nat \<Rightarrow> nat \<Rightarrow> 'm kstate \<Rightarrow> 'm kstate" where
  "reparent_from pol me p 0 i s = s"
| "reparent_from pol me p (Suc n) i s =
     reparent_from pol me p n (Suc i) (reparent_step pol me p i s)"

definition reparent :: "policy \<Rightarrow> nat \<Rightarrow> nat \<Rightarrow> 'm kstate \<Rightarrow> 'm kstate" where
  "reparent pol me p s = reparent_from pol me p (NPROC s) 0 s"

text \<open>
  \<^verbatim>\<open>exit\<close>. Closing the files and the directory changes the file table and the file
  system, which are not part of this state; the slot's own references are cleared. The
  call of \<^verbatim>\<open>sched\<close> is followed by \<^verbatim>\<open>panic("zombie exit")\<close>.
\<close>

definition exit :: "policy \<Rightarrow> 'm env option \<Rightarrow> nat \<Rightarrow> int \<Rightarrow> 'm kstate \<Rightarrow> unit result \<times> 'm kstate" where
  "exit pol resume me status s =
     (if Some me = initproc s then (Panics Init_exiting, s)
      else
        (let s1 = upd me (\<lambda>p. p\<lparr>ofile := map (\<lambda>f. None) (ofile p), cwd := None\<rparr>) s;
             s2 = reparent pol me me s1;
             s3 = wakeup pol (Some me) (chan_of (parent (proc s2 ! me))) s2;
             s4 = upd me (\<lambda>p. p\<lparr>xstate := status, state := ZOMBIE, etime := ticks s3\<rparr>) s3
         in case sched resume me s4 of
              (Returns u, s5) \<Rightarrow> (Panics Zombie_exit, s5)
            | (r, s5) \<Rightarrow> (r, s5)))"

definition kill_slot :: "proc \<Rightarrow> proc" where
  "kill_slot p =
     (let p1 = p\<lparr>killed := 1\<rparr>
      in if state p1 = SLEEPING then p1\<lparr>state := RUNNABLE\<rparr> else p1)"

fun kill_from :: "int \<Rightarrow> proc list \<Rightarrow> int \<times> proc list" where
  "kill_from pid' [] = (-1, [])"
| "kill_from pid' (p # ps) =
     (if pid p = pid' then (0, kill_slot p # ps)
      else (case kill_from pid' ps of (r, ps') \<Rightarrow> (r, p # ps')))"

definition kill :: "int \<Rightarrow> 'm kstate \<Rightarrow> int \<times> 'm kstate" where
  "kill pid' s = (case kill_from pid' (proc s) of (r, ps) \<Rightarrow> (r, s\<lparr>proc := ps\<rparr>))"

subsection \<open>set\_priority\_i\<close>

text \<open>The search loop of \<^verbatim>\<open>set_priority_i\<close>, at slot \<open>i\<close>: the slot it breaks at.\<close>

definition is_target :: "int \<Rightarrow> proc \<Rightarrow> bool" where
  "is_target pid' p \<longleftrightarrow> (state p = RUNNABLE \<or> state p = SLEEPING) \<and> pid p = pid'"

fun find_target :: "int \<Rightarrow> nat \<Rightarrow> proc list \<Rightarrow> nat option" where
  "find_target pid' i [] = None"
| "find_target pid' i (p # ps) =
     (if is_target pid' p then Some i else find_target pid' (Suc i) ps)"

definition set_priority_slot :: "int \<Rightarrow> proc \<Rightarrow> proc" where
  "set_priority_slot priority p =
     p\<lparr>Static_priority := priority, running_time := -1, sleeping_time := -1\<rparr>"

definition set_priority_i ::
    "policy \<Rightarrow> 'm env option \<Rightarrow> nat \<Rightarrow> int \<Rightarrow> int \<Rightarrow> 'm kstate \<Rightarrow> int result \<times> 'm kstate" where
  "set_priority_i pol resume me priority pid' s =
     (if pol \<noteq> PBS then (Returns 10, s)
      else if priority < 0 \<or> priority > 100 then (Returns 1, s)
      else
        (case find_target pid' 0 (proc s) of
           None \<Rightarrow> (Returns 2, s)
         | Some i \<Rightarrow>
             (let Ppid = pid (proc s ! i)
              in if Ppid = -1 then (Returns 2, s)
                 else
                   (let old_priority = Static_priority (proc s ! i);
                        s1 = upd i (set_priority_slot priority) s
                    in if priority > old_priority then
                         (case yield resume me s1 of
                            (Returns u, s2) \<Rightarrow> (Returns old_priority, s2)
                          | (r, s2) \<Rightarrow> (stopped r, s2))
                       else (Returns old_priority, s1)))))"

section \<open>The schedulers\<close>

text \<open>
  One turn of the outer loop of each \<^verbatim>\<open>scheduler\<close>, up to its \<^verbatim>\<open>swtch\<close>: the slot
  put in \<^verbatim>\<open>c->proc\<close>, if any, and the state at the switch.
\<close>

subsection \<open>FCFS\<close>

text \<open>
  The scan at slot \<open>i\<close>, with the locals \<^verbatim>\<open>First_start\<close> and \<^verbatim>\<open>ToBeScheduled\<close>.
\<close>

fun FCFS_scan :: "nat \<Rightarrow> proc list \<Rightarrow> int \<Rightarrow> nat option \<Rightarrow> int \<times> nat option" where
  "FCFS_scan i [] First_start ToBeScheduled = (First_start, ToBeScheduled)"
| "FCFS_scan i (p # ps) First_start ToBeScheduled =
     (if state p = RUNNABLE then
        (if First_start = -1 then FCFS_scan (Suc i) ps (start_time p) (Some i)
         else if start_time p < First_start then FCFS_scan (Suc i) ps (start_time p) (Some i)
         else FCFS_scan (Suc i) ps First_start ToBeScheduled)
      else FCFS_scan (Suc i) ps First_start ToBeScheduled)"

definition scheduler_FCFS :: "'m kstate \<Rightarrow> nat option \<times> 'm kstate" where
  "scheduler_FCFS s =
     (case FCFS_scan 0 (proc s) (-1) None of
        (First_start, ToBeScheduled) \<Rightarrow>
          (if First_start = -1 then (None, s)
           else case ToBeScheduled of
                  None \<Rightarrow> (None, s)
                | Some i \<Rightarrow> (Some i, upd i (\<lambda>p. p\<lparr>state := RUNNING\<rparr>) s)))"

subsection \<open>PBS\<close>

definition PcbCompare :: "proc \<Rightarrow> proc \<Rightarrow> fault + int" where
  "PcbCompare p q =
     (case PSBPriority p of
        Inl e \<Rightarrow> Inl e
      | Inr p_priority \<Rightarrow>
          (case PSBPriority q of
             Inl e \<Rightarrow> Inl e
           | Inr q_priority \<Rightarrow>
               Inr (if p_priority < q_priority then -1
                    else if p_priority > q_priority then 1
                    else if Times_scheduled p > Times_scheduled q then 1
                    else if Times_scheduled q > Times_scheduled p then -1
                    else if start_time p < start_time q then -1
                    else if start_time q < start_time p then 1
                    else -1)))"

text \<open>The scan at slot \<open>i\<close>; \<^verbatim>\<open>ToBeScheduled\<close> is kept with the slot it points to.\<close>

fun PBS_scan :: "nat \<Rightarrow> proc list \<Rightarrow> (nat \<times> proc) option \<Rightarrow> fault + (nat \<times> proc) option" where
  "PBS_scan i [] ToBeScheduled = Inr ToBeScheduled"
| "PBS_scan i (p # ps) ToBeScheduled =
     (if state p = RUNNABLE then
        (case ToBeScheduled of
           None \<Rightarrow> PBS_scan (Suc i) ps (Some (i, p))
         | Some (j, q) \<Rightarrow>
             (case PcbCompare q p of
                Inl e \<Rightarrow> Inl e
              | Inr c \<Rightarrow>
                  if c > 0 then PBS_scan (Suc i) ps (Some (i, p))
                  else PBS_scan (Suc i) ps ToBeScheduled))
      else PBS_scan (Suc i) ps ToBeScheduled)"

definition PBS_dispatch :: "int \<Rightarrow> proc \<Rightarrow> proc" where
  "PBS_dispatch t p =
     p\<lparr>state := RUNNING, Times_scheduled := Times_scheduled p + 1, sleeping_time := 0,
       running_time := t\<rparr>"

definition scheduler_PBS :: "'m kstate \<Rightarrow> fault + nat option \<times> 'm kstate" where
  "scheduler_PBS s =
     (case PBS_scan 0 (proc s) None of
        Inl e \<Rightarrow> Inl e
      | Inr None \<Rightarrow> Inr (None, s)
      | Inr (Some (i, p)) \<Rightarrow> Inr (Some i, upd i (PBS_dispatch (ticks s)) s))"

subsection \<open>MLFQ\<close>

definition Max_wait :: "int list" where
  "Max_wait = [0, 10, 30, 100, 150]"

text \<open>
  \<^verbatim>\<open>UpgradePolicy\<close> on one slot. \<^verbatim>\<open>ticks\<close> is a \<^verbatim>\<open>uint\<close>, so the difference and the
  comparison are unsigned. \<^verbatim>\<open>Max_wait\<close> has five entries: a priority number outside
  \<open>0..4\<close> reads outside the array.
\<close>

datatype mlfq_fault = Max_wait_bounds

definition upgrade_slot :: "int \<Rightarrow> proc \<Rightarrow> mlfq_fault + proc" where
  "upgrade_slot t p =
     (if state p = RUNNABLE \<and> priority_number p \<noteq> 0 then
        (if priority_number p < 0 \<or> priority_number p > 4 then Inl Max_wait_bounds
         else if uint (t - time_added p) > Max_wait ! nat (priority_number p) then
           Inr (p\<lparr>time_added := t, priority_number := priority_number p - 1\<rparr>)
         else Inr p)
      else Inr p)"

fun UpgradePolicy :: "int \<Rightarrow> proc list \<Rightarrow> mlfq_fault + proc list" where
  "UpgradePolicy t [] = Inr []"
| "UpgradePolicy t (p # ps) =
     (case upgrade_slot t p of
        Inl e \<Rightarrow> Inl e
      | Inr p' \<Rightarrow> (case UpgradePolicy t ps of Inl e \<Rightarrow> Inl e | Inr ps' \<Rightarrow> Inr (p' # ps')))"



text \<open>
  The \<^verbatim>\<open>while(1)\<close> round robin from the cursor \<^verbatim>\<open>rr_s\<close>: the slot chosen and the
  new cursor. The table does not change while it runs, so after one step for each slot
  it has either found a \<^verbatim>\<open>RUNNABLE\<close> slot or will never find one: \<open>None\<close> is the loop
  that does not end.
\<close>

fun rr_scan :: "nat \<Rightarrow> nat \<Rightarrow> proc list \<Rightarrow> (nat \<times> nat) option" where
  "rr_scan 0 rr_s ps = None"
| "rr_scan (Suc n) rr_s ps =
     (if state (ps ! rr_s) = RUNNABLE then Some (rr_s, (rr_s + 1) mod length ps)
      else rr_scan n ((rr_s + 1) mod length ps) ps)"



section \<open>Allocation and the life of a slot under PBS\<close>

text \<open>
  The last part of \<^verbatim>\<open>allocproc\<close>: the accounting and policy fields of the slot it has
  just claimed.
\<close>

definition allocproc_init :: "policy \<Rightarrow> int \<Rightarrow> proc \<Rightarrow> proc" where
  "allocproc_init pol t p =
     (let p1 = p\<lparr>rtime := 0, etime := 0, ctime := t\<rparr>;
          p2 = (if pol = FCFS then p1\<lparr>start_time := t\<rparr> else p1);
          p3 = (if pol = PBS then
                  p2\<lparr>Static_priority := 60, Times_scheduled := 0, start_time := t,
                     running_time := -1, sleeping_time := -1\<rparr>
                else p2)
      in if pol = MLFQ then
           p3\<lparr>priority_number := 0, time_added := t, no_of_ticks := 0, No_times := 0\<rparr>
         else p3)"

definition update_time_slot :: "proc \<Rightarrow> proc" where
  "update_time_slot p = (if state p = RUNNING then p\<lparr>rtime := rtime p + 1\<rparr> else p)"

text \<open>
  The contents a slot can have at tick \<open>t\<close> in a PBS kernel: each rule is one place of
  proc.c that writes to a slot, with the state the slot must be in for the code to get
  there (\<^verbatim>\<open>allocproc\<close>; \<^verbatim>\<open>userinit\<close> and \<^verbatim>\<open>fork\<close>; the timer; the scheduler;
  \<^verbatim>\<open>sleep\<close>; \<^verbatim>\<open>wakeup\<close>; \<^verbatim>\<open>yield\<close>; \<^verbatim>\<open>kill\<close>; \<^verbatim>\<open>set_priority_i\<close>).
\<close>

inductive PBS_reach :: "int \<Rightarrow> proc \<Rightarrow> bool" where
  allocated: "0 \<le> t \<Longrightarrow> state p = UNUSED \<Longrightarrow>
     PBS_reach t (allocproc_init PBS t
       (p\<lparr>pid := n, state := USED, trapframe := Some a, pagetable := Some b\<rparr>))"
| made_runnable: "PBS_reach t p \<Longrightarrow> state p = USED \<Longrightarrow> PBS_reach t (p\<lparr>state := RUNNABLE\<rparr>)"
| ticked: "PBS_reach t p \<Longrightarrow> PBS_reach (t + 1) p"
| timed: "PBS_reach t p \<Longrightarrow> PBS_reach t (update_time_slot p)"
| dispatched: "PBS_reach t p \<Longrightarrow> state p = RUNNABLE \<Longrightarrow> PBS_reach t (PBS_dispatch t p)"
| slept: "PBS_reach t p \<Longrightarrow> state p = RUNNING \<Longrightarrow> PBS_reach t (sleep_mark PBS t c p)"
| woken: "PBS_reach t p \<Longrightarrow> PBS_reach t (wakeup_slot PBS t c p)"
| yielded: "PBS_reach t p \<Longrightarrow> state p = RUNNING \<Longrightarrow> PBS_reach t (p\<lparr>state := RUNNABLE\<rparr>)"
| killed: "PBS_reach t p \<Longrightarrow> PBS_reach t (kill_slot p)"
| reprioritised: "PBS_reach t p \<Longrightarrow> state p = RUNNABLE \<or> state p = SLEEPING \<Longrightarrow>
     0 \<le> priority \<Longrightarrow> priority \<le> 100 \<Longrightarrow> PBS_reach t (set_priority_slot priority p)"

section \<open>Scans with a sentinel\<close>

text \<open>
  The scans of the FCFS and the MLFQ scheduler have one shape: a running minimum that
  starts at a sentinel \<open>z\<close>, and the slot that gave it. The shape is studied once.
\<close>

fun sentinel_scan ::
    "(proc \<Rightarrow> bool) \<Rightarrow> (proc \<Rightarrow> int) \<Rightarrow> int \<Rightarrow> nat \<Rightarrow> proc list \<Rightarrow> int \<Rightarrow> nat option
       \<Rightarrow> int \<times> nat option" where
  "sentinel_scan ok key z i [] m c = (m, c)"
| "sentinel_scan ok key z i (p # ps) m c =
     (if ok p then
        (if m = z then sentinel_scan ok key z (Suc i) ps (key p) (Some i)
         else if key p < m then sentinel_scan ok key z (Suc i) ps (key p) (Some i)
         else sentinel_scan ok key z (Suc i) ps m c)
      else sentinel_scan ok key z (Suc i) ps m c)"


section \<open>Example tables\<close>

text \<open>
  Slot 0 is a running process whose kill flag is set; its children are the zombie in
  slot 1 and the sleeper in slot 2; slot 3 is unused.
\<close>

definition ex_table :: "unit kstate" where
  "ex_table =
     \<lparr> proc =
         [zero_proc\<lparr>state := RUNNING, pid := 1, killed := 1, pagetable := Some 20,
                    trapframe := Some 21\<rparr>,
          zero_proc\<lparr>state := ZOMBIE, pid := 7, parent := Some 0, xstate := 3, sz := 4096,
                    pagetable := Some 12, trapframe := Some 11, name := ''sh'',
                    rtime := 4, ctime := 10, etime := 30\<rparr>,
          zero_proc\<lparr>state := SLEEPING, pid := 8, parent := Some 0, chan := AddrChan 5,
                    Static_priority := 60\<rparr>,
          zero_proc],
       initproc = Some 0, ticks = 40, kfreed = [], pagetables_freed = [], umem = () \<rparr>"

text \<open>A \<^verbatim>\<open>copyout\<close> that always succeeds, and one that always fails.\<close>

definition copyout_ok :: "unit copyout" where
  "copyout_ok pt dst v m = Some m"

definition copyout_fails :: "unit copyout" where
  "copyout_fails pt dst v m = None"

text \<open>
  A slot that is allocated, made runnable, dispatched, put to sleep and woken, all
  within tick 7; and a table that holds it next to a fresh runnable slot.
\<close>

definition div0_slot :: proc where
  "div0_slot =
     wakeup_slot PBS 7 (AddrChan 1)
       (sleep_mark PBS 7 (AddrChan 1)
         (PBS_dispatch 7
           ((allocproc_init PBS 7
               (zero_proc\<lparr>pid := 2, state := USED, trapframe := Some 1, pagetable := Some 2\<rparr>))
            \<lparr>state := RUNNABLE\<rparr>)))"

text \<open>A slot that has slept for 500000000 ticks: ten times that is beyond an \<^verbatim>\<open>int\<close>.\<close>

definition long_sleeper :: proc where
  "long_sleeper =
     zero_proc\<lparr>state := RUNNABLE, pid := 3, Static_priority := 60, running_time := 0,
               sleeping_time := 500000000\<rparr>"

definition pbs_ex :: "unit kstate" where
  "pbs_ex =
     \<lparr> proc =
         [zero_proc\<lparr>state := RUNNABLE, pid := 1, Static_priority := 60, running_time := -1,
                    sleeping_time := -1\<rparr>,
          div0_slot],
       initproc = Some 0, ticks = 7, kfreed = [], pagetables_freed = [], umem = () \<rparr>"

text \<open>
  \<^verbatim>\<open>init\<close> (slot 0) and a shell (slot 1) both sleep in \<^verbatim>\<open>wait\<close>; the shell's child
  in slot 2 is running and has two children of its own, in slots 3 and 4.
\<close>

definition exit_ex :: "unit kstate" where
  "exit_ex =
     \<lparr> proc =
         [zero_proc\<lparr>state := SLEEPING, pid := 1, chan := ProcChan 0\<rparr>,
          zero_proc\<lparr>state := SLEEPING, pid := 2, parent := Some 0, chan := ProcChan 1\<rparr>,
          zero_proc\<lparr>state := RUNNING, pid := 3, parent := Some 1, ofile := [Some 4, None],
                    cwd := Some 6\<rparr>,
          zero_proc\<lparr>state := RUNNABLE, pid := 4, parent := Some 2\<rparr>,
          zero_proc\<lparr>state := SLEEPING, pid := 5, parent := Some 2, chan := AddrChan 9\<rparr>],
       initproc = Some 0, ticks = 40, kfreed = [], pagetables_freed = [], umem = () \<rparr>"



text \<open>Runnable slots allocated at ticks 5, 3 and 9, around a sleeper.\<close>

definition fcfs_ex :: "unit kstate" where
  "fcfs_ex =
     \<lparr> proc =
         [zero_proc\<lparr>state := RUNNABLE, pid := 1, start_time := 5\<rparr>,
          zero_proc\<lparr>state := SLEEPING, pid := 2, start_time := 1\<rparr>,
          zero_proc\<lparr>state := RUNNABLE, pid := 3, start_time := 3\<rparr>,
          zero_proc\<lparr>state := RUNNABLE, pid := 4, start_time := 9\<rparr>],
       initproc = Some 0, ticks = 12, kfreed = [], pagetables_freed = [], umem = () \<rparr>"

section \<open>Theorems\<close>

lemma trunc_div_nonneg: "0 \<le> a \<Longrightarrow> 0 < b \<Longrightarrow> trunc_div a b = a div b"
  by (simp add: trunc_div_def)

lemma to_int_id: "in_int x \<Longrightarrow> to_int x = x"
  by (simp add: to_int_def in_int_def)

lemma trunc_div_abs_le: "b \<noteq> 0 \<Longrightarrow> \<bar>trunc_div a b\<bar> \<le> \<bar>a\<bar>"
proof -
  assume "b \<noteq> 0"
  then have b: "1 \<le> \<bar>b\<bar>" by simp
  have "\<bar>a\<bar> div \<bar>b\<bar> \<le> \<bar>a\<bar> div 1"
    by (rule zdiv_mono2) (use b in simp_all)
  moreover have "0 \<le> \<bar>a\<bar> div \<bar>b\<bar>"
    using b by (simp add: pos_imp_zdiv_nonneg_iff)
  ultimately show ?thesis by (simp add: trunc_div_def)
qed

lemma in_int_trunc_div:
  assumes "in_int a" "a \<noteq> - 2147483648" "b \<noteq> 0"
  shows "in_int (trunc_div a b)"
proof -
  have "- 2147483648 \<le> a \<and> a < 2147483648" using assms(1) by (simp add: in_int_def)
  with assms(2) have "\<bar>a\<bar> < 2147483648" by linarith
  with trunc_div_abs_le [OF assms(3), of a]
  have "- 2147483648 \<le> trunc_div a b \<and> trunc_div a b < 2147483648"
    by linarith
  then show ?thesis by (simp add: in_int_def)
qed

lemma in_int_niceness:
  assumes "in_int (s * 10)" "b \<noteq> 0"
  shows "in_int (trunc_div (s * 10) b)"
proof -
  have "s * 10 \<noteq> - 2147483648" by presburger
  from in_int_trunc_div [OF assms(1) this assms(2)] show ?thesis .
qed

text \<open>
  C4, as the code has it. Under PBS the dynamic priority that \<open>PSBPriority\<close> computes
  is \<open>clamp (Static_priority - niceness + 5) 0 100\<close>, with niceness 5 for a fresh slot
  (both interval markers \<open>-1\<close>) and otherwise the truncated quotient of
  \<open>sleeping_time * 10\<close> by \<open>running_time + sleeping_time\<close>, for every slot on
  which the quotient is defined (the divisor is not zero) and none of the 32-bit
  \<^verbatim>\<open>int\<close> operations overflows. A fresh slot of static priority 60 gets 60; static
  priority 60 with sleeping time 80 and running time 20 gets niceness 8 and priority 57.
\<close>

theorem PSBPriority_clamp_in_range:
  "(sleeping_time p = -1 \<and> running_time p = -1
      \<and> in_int (Static_priority p - 5) \<and> in_int (Static_priority p - 5 + 5) \<longrightarrow>
      PSBPriority p = Inr (clamp (Static_priority p - 5 + 5) 0 100))
   \<and> (\<not> (sleeping_time p = -1 \<and> running_time p = -1)
        \<and> running_time p + sleeping_time p \<noteq> 0
        \<and> in_int (sleeping_time p * 10) \<and> in_int (running_time p + sleeping_time p)
        \<and> n = trunc_div (sleeping_time p * 10) (running_time p + sleeping_time p)
        \<and> in_int (Static_priority p - n) \<and> in_int (Static_priority p - n + 5) \<longrightarrow>
      PSBPriority p = Inr (clamp (Static_priority p - n + 5) 0 100))
   \<and> PSBPriority (p\<lparr>Static_priority := 60, running_time := -1, sleeping_time := -1\<rparr>)
        = Inr 60
   \<and> trunc_div (80 * 10) (20 + 80) = 8
   \<and> PSBPriority (p\<lparr>Static_priority := 60, sleeping_time := 80, running_time := 20\<rparr>)
        = Inr 57"
proof (intro conjI impI)
  assume "sleeping_time p = -1 \<and> running_time p = -1
      \<and> in_int (Static_priority p - 5) \<and> in_int (Static_priority p - 5 + 5)"
  then show "PSBPriority p = Inr (clamp (Static_priority p - 5 + 5) 0 100)"
    by (simp add: PSBPriority_def to_int_id clamp_def Let_def)
next
  assume a: "\<not> (sleeping_time p = -1 \<and> running_time p = -1)
        \<and> running_time p + sleeping_time p \<noteq> 0
        \<and> in_int (sleeping_time p * 10) \<and> in_int (running_time p + sleeping_time p)
        \<and> n = trunc_div (sleeping_time p * 10) (running_time p + sleeping_time p)
        \<and> in_int (Static_priority p - n) \<and> in_int (Static_priority p - n + 5)"
  let ?a = "sleeping_time p * 10" and ?b = "running_time p + sleeping_time p"
  from a have nf: "\<not> (sleeping_time p = -1 \<and> running_time p = -1)" and nz: "?b \<noteq> 0"
    and ia: "in_int ?a" and ib: "in_int ?b" and n: "n = trunc_div ?a ?b"
    and i1: "in_int (Static_priority p - n)" and i2: "in_int (Static_priority p - n + 5)"
    by blast+
  have "in_int n" unfolding n using ia nz by (rule in_int_niceness)
  then have q: "c_div (to_int ?a) (to_int ?b) = Inr n"
    using nz ia ib n by (simp add: c_div_def to_int_id)
  have v: "to_int (to_int (Static_priority p - n) + 5) = Static_priority p - n + 5"
    using i1 i2 by (simp add: to_int_id)
  show "PSBPriority p = Inr (clamp (Static_priority p - n + 5) 0 100)"
    unfolding PSBPriority_def by (simp add: nf q v clamp_def Let_def)
next
  show "PSBPriority (p\<lparr>Static_priority := 60, running_time := -1, sleeping_time := -1\<rparr>) = Inr 60"
    by (simp add: PSBPriority_def to_int_def)
  show "trunc_div (80 * 10) (20 + 80) = 8"
    by (simp add: trunc_div_def)
  show "PSBPriority (p\<lparr>Static_priority := 60, sleeping_time := 80, running_time := 20\<rparr>) = Inr 57"
    by (simp add: PSBPriority_def c_div_def to_int_def trunc_div_def)
qed

theorem PSBPriority_clamp_in_range_witness:
  "PSBPriority (zero_proc\<lparr>Static_priority := 30, sleeping_time := 7, running_time := 3\<rparr>)
     = Inr 28
   \<and> PSBPriority (zero_proc\<lparr>Static_priority := 2, sleeping_time := -1, running_time := -1\<rparr>)
     = Inr 2"
  using PSBPriority_clamp_in_range
      [where p = "zero_proc\<lparr>Static_priority := 30, sleeping_time := 7, running_time := 3\<rparr>"
        and n = 7]
    PSBPriority_clamp_in_range
      [where p = "zero_proc\<lparr>Static_priority := 2, sleeping_time := -1, running_time := -1\<rparr>"]
  by (simp add: clamp_def trunc_div_def in_int_def)

text \<open>
  C4 as stated fails outside that range. After 500000000 ticks of sleep the product
  \<open>sleeping_time * 10\<close> no longer fits an \<^verbatim>\<open>int\<close>: the formula gives niceness 10 and
  priority 55, the code niceness 1 and priority 64. And a slot that is not fresh with a
  zero divisor gets no priority at all.
\<close>

theorem PSBPriority_overflow_counterexample:
  "\<not> (sleeping_time long_sleeper = -1 \<and> running_time long_sleeper = -1)
   \<and> running_time long_sleeper + sleeping_time long_sleeper \<noteq> 0
   \<and> clamp (Static_priority long_sleeper
             - trunc_div (sleeping_time long_sleeper * 10)
                 (running_time long_sleeper + sleeping_time long_sleeper) + 5) 0 100 = 55
   \<and> PSBPriority long_sleeper = Inr 64
   \<and> \<not> (sleeping_time div0_slot = -1 \<and> running_time div0_slot = -1)
   \<and> PSBPriority div0_slot = Inl DivByZero"
  by (simp add: long_sleeper_def zero_proc_def clamp_def trunc_div_def PSBPriority_def c_div_def
      to_int_def div0_slot_def wakeup_slot_def sleep_mark_def PBS_dispatch_def allocproc_init_def)

subsection \<open>kill\<close>

lemma kill_from_hit:
  "i < length ps \<Longrightarrow> pid (ps ! i) = pid' \<Longrightarrow> \<forall>j<i. pid (ps ! j) \<noteq> pid' \<Longrightarrow>
   kill_from pid' ps = (0, ps[i := kill_slot (ps ! i)])"
proof (induction ps arbitrary: i)
  case Nil
  then show ?case by simp
next
  case (Cons p ps)
  show ?case
  proof (cases i)
    case 0
    with Cons.prems show ?thesis by simp
  next
    case (Suc k)
    with Cons.prems have "pid p \<noteq> pid'" by auto
    moreover have "kill_from pid' ps = (0, ps[k := kill_slot (ps ! k)])"
      using Cons.prems Suc by (intro Cons.IH) auto
    ultimately show ?thesis using Suc by simp
  qed
qed

lemma kill_from_miss:
  "\<forall>p\<in>set ps. pid p \<noteq> pid' \<Longrightarrow> kill_from pid' ps = (-1, ps)"
  by (induction ps) auto

text \<open>
  C8, as the code has it. \<open>kill\<close> acts on the first slot of the table that holds the
  pid, whatever its state: it sets the kill flag, turns \<open>SLEEPING\<close> into \<open>RUNNABLE\<close>,
  leaves any other state (also \<open>ZOMBIE\<close>) as it is, and returns 0. When no slot holds
  the pid it returns \<open>-1\<close> and the state is unchanged.
\<close>

theorem kill_first_match:
  "(i < NPROC s \<and> pid (proc s ! i) = pid' \<and> (\<forall>j<i. pid (proc s ! j) \<noteq> pid')
     \<longrightarrow> kill pid' s = (0, upd i kill_slot s)
         \<and> killed (kill_slot (proc s ! i)) = 1
         \<and> state (kill_slot (proc s ! i)) =
             (if state (proc s ! i) = SLEEPING then RUNNABLE else state (proc s ! i)))
   \<and> ((\<forall>j<NPROC s. pid (proc s ! j) \<noteq> pid') \<longrightarrow> kill pid' s = (-1, s))"
proof (intro conjI impI)
  assume a: "i < NPROC s \<and> pid (proc s ! i) = pid' \<and> (\<forall>j<i. pid (proc s ! j) \<noteq> pid')"
  then have "kill_from pid' (proc s) = (0, (proc s)[i := kill_slot (proc s ! i)])"
    by (intro kill_from_hit) (auto simp: NPROC_def)
  then show "kill pid' s = (0, upd i kill_slot s)"
    by (simp add: kill_def upd_def)
  show "killed (kill_slot (proc s ! i)) = 1"
    by (simp add: kill_slot_def Let_def)
  show "state (kill_slot (proc s ! i)) =
             (if state (proc s ! i) = SLEEPING then RUNNABLE else state (proc s ! i))"
    by (simp add: kill_slot_def Let_def)
next
  assume "\<forall>j<NPROC s. pid (proc s ! j) \<noteq> pid'"
  then have "\<forall>p\<in>set (proc s). pid p \<noteq> pid'"
    by (auto simp: NPROC_def in_set_conv_nth)
  then have "kill_from pid' (proc s) = (-1, proc s)"
    by (rule kill_from_miss)
  then show "kill pid' s = (-1, s)"
    by (simp add: kill_def)
qed

theorem kill_first_match_witness:
  "kill 8 ex_table = (0, upd 2 kill_slot ex_table)
   \<and> state (kill_slot (proc ex_table ! 2)) = RUNNABLE
   \<and> kill 99 ex_table = (-1, ex_table)"
  using kill_first_match [where i = 2 and s = ex_table and pid' = 8]
    kill_first_match [where i = 0 and s = ex_table and pid' = 99]
  by (simp add: ex_table_def NPROC_def zero_proc_def less_Suc_eq numeral_2_eq_2 numeral_3_eq_3)

text \<open>
  C8 as stated fails for a zombie: the slot still holds its pid, so \<open>kill\<close> finds it,
  sets its kill flag and returns 0.
\<close>

theorem kill_zombie_counterexample:
  "state (proc ex_table ! 1) = ZOMBIE \<and> pid (proc ex_table ! 1) = 7
   \<and> killed (proc ex_table ! 1) = 0
   \<and> fst (kill 7 ex_table) = 0
   \<and> killed (proc (snd (kill 7 ex_table)) ! 1) = 1"
  by (simp add: ex_table_def zero_proc_def kill_def kill_slot_def)

subsection \<open>wait and waitx\<close>

lemma wait_scan_Found:
  "wait_scan me i ps hk = Found k \<Longrightarrow>
   \<exists>n<length ps. k = i + n \<and> parent (ps ! n) = Some me \<and> state (ps ! n) = ZOMBIE
     \<and> (\<forall>j<n. \<not> (parent (ps ! j) = Some me \<and> state (ps ! j) = ZOMBIE))"
proof (induction ps arbitrary: i hk)
  case Nil
  then show ?case by simp
next
  case (Cons p ps)
  show ?case
  proof (cases "parent p = Some me \<and> state p = ZOMBIE")
    case True
    with Cons.prems have "k = i" by simp
    with True show ?thesis by (intro exI [of _ 0]) simp
  next
    case False
    then obtain hk' where "wait_scan me (Suc i) ps hk' = Found k"
      using Cons.prems by (auto split: if_splits)
    from Cons.IH [OF this] obtain n where n: "n < length ps" "k = Suc i + n"
      "parent (ps ! n) = Some me" "state (ps ! n) = ZOMBIE"
      "\<forall>j<n. \<not> (parent (ps ! j) = Some me \<and> state (ps ! j) = ZOMBIE)" by blast
    have "\<forall>j<Suc n. \<not> (parent ((p # ps) ! j) = Some me \<and> state ((p # ps) ! j) = ZOMBIE)"
      using False n(5) by (auto simp: less_Suc_eq_0_disj)
    with n show ?thesis by (intro exI [of _ "Suc n"]) simp
  qed
qed

lemma wait_scan_NoZombie:
  "wait_scan me i ps hk = NoZombie b \<Longrightarrow>
   (\<forall>p\<in>set ps. \<not> (parent p = Some me \<and> state p = ZOMBIE))
   \<and> b = (hk \<or> (\<exists>p\<in>set ps. parent p = Some me))"
  by (induction ps arbitrary: i hk) (auto split: if_splits)

lemma wait_scan_first:
  assumes "i < length ps" "parent (ps ! i) = Some me" "state (ps ! i) = ZOMBIE"
    "\<forall>j<i. \<not> (parent (ps ! j) = Some me \<and> state (ps ! j) = ZOMBIE)"
  shows "wait_scan me 0 ps hk = Found i"
proof (cases "wait_scan me 0 ps hk")
  case (Found k)
  from wait_scan_Found [OF this] obtain n where n: "n < length ps" "k = n"
    "parent (ps ! n) = Some me" "state (ps ! n) = ZOMBIE"
    "\<forall>j<n. \<not> (parent (ps ! j) = Some me \<and> state (ps ! j) = ZOMBIE)" by auto
  have "n = i" using assms n by (meson linorder_neqE_nat)
  with Found n show ?thesis by simp
next
  case (NoZombie b)
  from wait_scan_NoZombie [OF this] assms show ?thesis
    using nth_mem by blast
qed

lemma wait_scan_none:
  assumes "\<forall>j<length ps. \<not> (parent (ps ! j) = Some me \<and> state (ps ! j) = ZOMBIE)"
  shows "wait_scan me 0 ps False = NoZombie (\<exists>j<length ps. parent (ps ! j) = Some me)"
proof (cases "wait_scan me 0 ps False")
  case (Found k)
  from wait_scan_Found [OF this] assms show ?thesis by auto
next
  case (NoZombie b)
  have "(\<exists>p\<in>set ps. parent p = Some me) = (\<exists>j<length ps. parent (ps ! j) = Some me)"
    by (metis in_set_conv_nth)
  with wait_scan_NoZombie [OF NoZombie] NoZombie show ?thesis by simp
qed

lemma freeproc_slots:
  "i < length (proc s) \<Longrightarrow>
   proc (freeproc i s) = (proc s)[i := (proc s ! i)\<lparr>trapframe := None, pagetable := None,
       sz := 0, pid := 0, parent := None, name := [], chan := NoChan, killed := 0,
       xstate := 0, state := UNUSED\<rparr>]"
  by (simp add: freeproc_def upd_def Let_def split: option.splits)

lemma freeproc_kfreed:
  "kfreed (freeproc i s) =
     kfreed s @ (case trapframe (proc s ! i) of None \<Rightarrow> [] | Some a \<Rightarrow> [a])"
  by (simp add: freeproc_def upd_def Let_def split: option.splits)

lemma freeproc_pagetables_freed:
  "pagetables_freed (freeproc i s) =
     pagetables_freed s
       @ (case pagetable (proc s ! i) of None \<Rightarrow> [] | Some t \<Rightarrow> [(t, sz (proc s ! i))])"
  by (simp add: freeproc_def upd_def Let_def split: option.splits)

lemma wait_returns_at_once:
  "wait_once copyout me addr s = Some (r, s') \<Longrightarrow>
   wait copyout pol envs me addr s = (Returns r, s')"
  by (cases envs) simp_all

lemma waitx_returns_at_once:
  "waitx_once copyout me addr s = Some (r, out, s') \<Longrightarrow>
   waitx copyout pol envs me addr s = (Returns r, out, s')"
  by (cases envs) simp_all

text \<open>
  C1, as the code has it. If the caller has no child, or its kill flag is set and none
  of its children is a zombie, \<open>wait\<close> returns \<open>-1\<close> at once: it does not sleep,
  whatever the environment, and the state is unchanged. If the caller has a zombie
  child and the exit status can be delivered (the address is 0, or \<open>copyout\<close>
  succeeds), \<open>wait\<close> returns the pid of the first such child in table order, also
  when the caller's kill flag is set; that slot is freed (trapframe and page table
  handed back and nulled, \<open>sz\<close>, \<open>pid\<close>, \<open>parent\<close>, \<open>name\<close>, \<open>chan\<close>, \<open>killed\<close>,
  \<open>xstate\<close> cleared, state \<open>UNUSED\<close>) and no other slot changes.
\<close>

theorem wait_reaps_first_zombie:
  "((\<forall>j<NPROC s. parent (proc s ! j) \<noteq> Some me)
      \<or> (killed (proc s ! me) \<noteq> 0
          \<and> (\<forall>j<NPROC s. \<not> (parent (proc s ! j) = Some me \<and> state (proc s ! j) = ZOMBIE)))
     \<longrightarrow> wait copyout pol envs me addr s = (Returns (-1), s))
   \<and> (i < NPROC s \<and> parent (proc s ! i) = Some me \<and> state (proc s ! i) = ZOMBIE
        \<and> (\<forall>j<i. \<not> (parent (proc s ! j) = Some me \<and> state (proc s ! j) = ZOMBIE))
        \<and> (if addr = 0 then s1 = s
             else \<exists>m. copyout (pagetable (proc s ! me)) addr (xstate (proc s ! i)) (umem s)
                        = Some m \<and> s1 = s\<lparr>umem := m\<rparr>)
     \<longrightarrow> wait copyout pol envs me addr s = (Returns (pid (proc s ! i)), freeproc i s1)
         \<and> proc (freeproc i s1) ! i =
               (proc s ! i)\<lparr>trapframe := None, pagetable := None, sz := 0, pid := 0,
                 parent := None, name := [], chan := NoChan, killed := 0, xstate := 0,
                 state := UNUSED\<rparr>
         \<and> (\<forall>j<NPROC s. j \<noteq> i \<longrightarrow> proc (freeproc i s1) ! j = proc s ! j)
         \<and> NPROC (freeproc i s1) = NPROC s
         \<and> kfreed (freeproc i s1) =
               kfreed s @ (case trapframe (proc s ! i) of None \<Rightarrow> [] | Some a \<Rightarrow> [a])
         \<and> pagetables_freed (freeproc i s1) =
               pagetables_freed s
                 @ (case pagetable (proc s ! i) of None \<Rightarrow> []
                    | Some t \<Rightarrow> [(t, sz (proc s ! i))]))"
proof (intro conjI impI)
  assume a: "(\<forall>j<NPROC s. parent (proc s ! j) \<noteq> Some me)
      \<or> (killed (proc s ! me) \<noteq> 0
          \<and> (\<forall>j<NPROC s. \<not> (parent (proc s ! j) = Some me \<and> state (proc s ! j) = ZOMBIE)))"
  then have "\<forall>j<length (proc s). \<not> (parent (proc s ! j) = Some me \<and> state (proc s ! j) = ZOMBIE)"
    by (auto simp: NPROC_def)
  from wait_scan_none [OF this] a have "wait_once copyout me addr s = Some (-1, s)"
    by (auto simp: wait_once_def NPROC_def)
  then show "wait copyout pol envs me addr s = (Returns (-1), s)"
    by (rule wait_returns_at_once)
next
  assume a: "i < NPROC s \<and> parent (proc s ! i) = Some me \<and> state (proc s ! i) = ZOMBIE
        \<and> (\<forall>j<i. \<not> (parent (proc s ! j) = Some me \<and> state (proc s ! j) = ZOMBIE))
        \<and> (if addr = 0 then s1 = s
             else \<exists>m. copyout (pagetable (proc s ! me)) addr (xstate (proc s ! i)) (umem s)
                        = Some m \<and> s1 = s\<lparr>umem := m\<rparr>)"
  then have i: "i < length (proc s)" by (simp add: NPROC_def)
  have scan: "wait_scan me 0 (proc s) False = Found i"
    using a i by (intro wait_scan_first) auto
  have s1: "proc s1 = proc s" "kfreed s1 = kfreed s" "pagetables_freed s1 = pagetables_freed s"
    using a by (auto split: if_splits)
  have "wait_once copyout me addr s = Some (pid (proc s ! i), freeproc i s1)"
    using a scan by (auto simp: wait_once_def Let_def split: if_splits)
  then show "wait copyout pol envs me addr s = (Returns (pid (proc s ! i)), freeproc i s1)"
    by (rule wait_returns_at_once)
  show "proc (freeproc i s1) ! i =
               (proc s ! i)\<lparr>trapframe := None, pagetable := None, sz := 0, pid := 0,
                 parent := None, name := [], chan := NoChan, killed := 0, xstate := 0,
                 state := UNUSED\<rparr>"
    using i s1 by (simp add: freeproc_slots)
  show "\<forall>j<NPROC s. j \<noteq> i \<longrightarrow> proc (freeproc i s1) ! j = proc s ! j"
    using i s1 by (simp add: freeproc_slots)
  show "NPROC (freeproc i s1) = NPROC s"
    using i s1 by (simp add: freeproc_slots NPROC_def)
  show "kfreed (freeproc i s1) =
               kfreed s @ (case trapframe (proc s ! i) of None \<Rightarrow> [] | Some a \<Rightarrow> [a])"
    using s1 by (simp add: freeproc_kfreed split: option.splits)
  show "pagetables_freed (freeproc i s1) =
               pagetables_freed s
                 @ (case pagetable (proc s ! i) of None \<Rightarrow> []
                    | Some t \<Rightarrow> [(t, sz (proc s ! i))])"
    using s1 by (simp add: freeproc_pagetables_freed split: option.splits)
qed

theorem wait_reaps_first_zombie_witness:
  "wait copyout_ok DEFAULT [] 3 0 ex_table = (Returns (-1), ex_table)
   \<and> wait copyout_ok DEFAULT [] 0 0 ex_table = (Returns 7, freeproc 1 ex_table)
   \<and> state (proc (freeproc 1 ex_table) ! 1) = UNUSED
   \<and> kfreed (freeproc 1 ex_table) = [11]
   \<and> pagetables_freed (freeproc 1 ex_table) = [(12, 4096)]"
  using wait_reaps_first_zombie [where s = ex_table and me = 3 and i = 1 and addr = 0
        and ?s1.0 = ex_table and copyout = copyout_ok and pol = DEFAULT and envs = "[]"]
    wait_reaps_first_zombie [where s = ex_table and me = 0 and i = 1 and addr = 0
        and ?s1.0 = ex_table and copyout = copyout_ok and pol = DEFAULT and envs = "[]"]
  by (simp add: ex_table_def NPROC_def zero_proc_def less_Suc_eq numeral_3_eq_3)

text \<open>
  C1 as stated fails twice: a caller whose kill flag is set still reaps a zombie child
  and gets its pid, not \<open>-1\<close>; and a zombie child is not reaped when \<open>copyout\<close> fails.
\<close>

theorem wait_counterexample:
  "killed (proc ex_table ! 0) \<noteq> 0
   \<and> fst (wait copyout_ok DEFAULT [] 0 0 ex_table) = Returns 7
   \<and> parent (proc ex_table ! 1) = Some 0 \<and> state (proc ex_table ! 1) = ZOMBIE
   \<and> wait copyout_fails DEFAULT [] 0 64 ex_table = (Returns (-1), ex_table)"
  by (simp add: ex_table_def zero_proc_def wait_once_def copyout_ok_def copyout_fails_def)

text \<open>
  C10. When \<open>wait\<close> or \<open>waitx\<close> finds a zombie child and \<open>copyout\<close> to the nonzero
  address fails, the call returns \<open>-1\<close> and the state is the one before the call, so
  the child is still a zombie with its pid, exit status and times (\<open>waitx\<close> has
  already stored the run time and the wait time); a later \<open>wait\<close> with address 0 reaps
  it. So \<open>-1\<close> is returned although the caller has a child.
\<close>

theorem wait_copyout_failure:
  assumes "i < NPROC s" "parent (proc s ! i) = Some me" "state (proc s ! i) = ZOMBIE"
    "\<forall>j<i. \<not> (parent (proc s ! j) = Some me \<and> state (proc s ! j) = ZOMBIE)"
    "addr \<noteq> 0"
    "copyout (pagetable (proc s ! me)) addr (xstate (proc s ! i)) (umem s) = None"
  shows "wait copyout pol envs me addr s = (Returns (-1), s)
    \<and> waitx copyout pol envs me addr s =
        (Returns (-1),
         Some (uint (rtime (proc s ! i)),
               uint (etime (proc s ! i) - ctime (proc s ! i) - rtime (proc s ! i))), s)
    \<and> wait copyout pol envs' me 0 s = (Returns (pid (proc s ! i)), freeproc i s)
    \<and> (\<exists>j<NPROC s. parent (proc s ! j) = Some me)"
proof -
  have scan: "wait_scan me 0 (proc s) False = Found i"
    using assms by (intro wait_scan_first) (auto simp: NPROC_def)
  have "wait_once copyout me addr s = Some (-1, s)"
    using assms scan by (simp add: wait_once_def Let_def)
  then have 1: "wait copyout pol envs me addr s = (Returns (-1), s)"
    by (rule wait_returns_at_once)
  have "waitx_once copyout me addr s = Some (-1, Some (uint (rtime (proc s ! i)),
               uint (etime (proc s ! i) - ctime (proc s ! i) - rtime (proc s ! i))), s)"
    using assms scan by (simp add: waitx_once_def Let_def)
  then have 2: "waitx copyout pol envs me addr s =
        (Returns (-1),
         Some (uint (rtime (proc s ! i)),
               uint (etime (proc s ! i) - ctime (proc s ! i) - rtime (proc s ! i))), s)"
    by (rule waitx_returns_at_once)
  have "wait_once copyout me 0 s = Some (pid (proc s ! i), freeproc i s)"
    using scan by (simp add: wait_once_def Let_def)
  then have 3: "wait copyout pol envs' me 0 s = (Returns (pid (proc s ! i)), freeproc i s)"
    by (rule wait_returns_at_once)
  from 1 2 3 assms show ?thesis by blast
qed

theorem wait_copyout_failure_witness:
  "wait copyout_fails PBS [] 0 64 ex_table = (Returns (-1), ex_table)
   \<and> waitx copyout_fails PBS [] 0 64 ex_table = (Returns (-1), Some (4, 16), ex_table)
   \<and> wait copyout_fails PBS [] 0 0 ex_table = (Returns 7, freeproc 1 ex_table)"
  using wait_copyout_failure [where i = 1 and s = ex_table and me = 0 and addr = 64
        and copyout = copyout_fails and pol = PBS and envs = "[]" and envs' = "[]"]
  by (simp add: ex_table_def NPROC_def zero_proc_def copyout_fails_def uint_def)

subsection \<open>set\_priority\_i\<close>

lemma find_target_Some:
  "find_target pid' i ps = Some k \<Longrightarrow>
   \<exists>n<length ps. k = i + n \<and> is_target pid' (ps ! n) \<and> (\<forall>j<n. \<not> is_target pid' (ps ! j))"
proof (induction ps arbitrary: i)
  case Nil
  then show ?case by simp
next
  case (Cons p ps)
  show ?case
  proof (cases "is_target pid' p")
    case True
    with Cons.prems have "k = i" by simp
    with True show ?thesis by (intro exI [of _ 0]) simp
  next
    case False
    with Cons.prems have "find_target pid' (Suc i) ps = Some k" by simp
    from Cons.IH [OF this] obtain n where n: "n < length ps" "k = Suc i + n"
      "is_target pid' (ps ! n)" "\<forall>j<n. \<not> is_target pid' (ps ! j)" by blast
    have "\<forall>j<Suc n. \<not> is_target pid' ((p # ps) ! j)"
      using False n(4) by (auto simp: less_Suc_eq_0_disj)
    with n show ?thesis by (intro exI [of _ "Suc n"]) simp
  qed
qed

lemma find_target_None:
  "find_target pid' i ps = None \<Longrightarrow> \<forall>p\<in>set ps. \<not> is_target pid' p"
  by (induction ps arbitrary: i) (auto split: if_splits)

lemma find_target_first:
  assumes "i < length ps" "is_target pid' (ps ! i)" "\<forall>j<i. \<not> is_target pid' (ps ! j)"
  shows "find_target pid' 0 ps = Some i"
proof (cases "find_target pid' 0 ps")
  case None
  from find_target_None [OF this] assms show ?thesis
    using nth_mem by blast
next
  case (Some k)
  from find_target_Some [OF this] obtain n where n: "n < length ps" "k = n"
    "is_target pid' (ps ! n)" "\<forall>j<n. \<not> is_target pid' (ps ! j)" by auto
  have "n = i" using assms n by (meson linorder_neqE_nat)
  with Some n show ?thesis by simp
qed

lemma find_target_none:
  assumes "\<forall>j<length ps. \<not> is_target pid' (ps ! j)"
  shows "find_target pid' 0 ps = None"
proof (cases "find_target pid' 0 ps")
  case None
  then show ?thesis .
next
  case (Some k)
  from find_target_Some [OF this] assms show ?thesis by auto
qed

text \<open>
  What \<open>set_priority_i\<close> does under PBS. A value outside \<open>0..100\<close> is rejected
  with 1, and 2 is returned when no slot is eligible; nothing changes then. Otherwise
  the first slot that holds the pid and is \<open>RUNNABLE\<close> or \<open>SLEEPING\<close> gets the new
  static priority and fresh interval markers, no other slot changes, and the previous
  static priority is returned, after a yield of the caller if the guard
  \<^verbatim>\<open>priority > old_priority\<close> holds.
\<close>

lemma set_priority_i_PBS:
  "(priority < 0 \<or> 100 < priority \<longrightarrow>
      set_priority_i PBS resume me priority pid' s = (Returns 1, s))
   \<and> (0 \<le> priority \<and> priority \<le> 100 \<and> (\<forall>j<NPROC s. \<not> is_target pid' (proc s ! j)) \<longrightarrow>
      set_priority_i PBS resume me priority pid' s = (Returns 2, s))
   \<and> (0 \<le> priority \<and> priority \<le> 100 \<and> pid' \<noteq> -1 \<and> me < NPROC s \<and> i < NPROC s
        \<and> is_target pid' (proc s ! i) \<and> (\<forall>j<i. \<not> is_target pid' (proc s ! j))
        \<and> old = Static_priority (proc s ! i) \<and> s1 = upd i (set_priority_slot priority) s \<longrightarrow>
      proc s1 ! i = (proc s ! i)\<lparr>Static_priority := priority, running_time := -1,
                                   sleeping_time := -1\<rparr>
      \<and> (\<forall>j<NPROC s. j \<noteq> i \<longrightarrow> proc s1 ! j = proc s ! j)
      \<and> (priority \<le> old \<longrightarrow> set_priority_i PBS resume me priority pid' s = (Returns old, s1))
      \<and> (old < priority \<longrightarrow>
           set_priority_i PBS None me priority pid' s
             = (Blocked, upd me (\<lambda>p. p\<lparr>state := RUNNABLE\<rparr>) s1)
           \<and> set_priority_i PBS (Some env) me priority pid' s
             = (Returns old, env (upd me (\<lambda>p. p\<lparr>state := RUNNABLE\<rparr>) s1))))"
proof (intro conjI impI)
  assume "priority < 0 \<or> 100 < priority"
  then show "set_priority_i PBS resume me priority pid' s = (Returns 1, s)"
    by (auto simp: set_priority_i_def)
next
  assume a: "0 \<le> priority \<and> priority \<le> 100 \<and> (\<forall>j<NPROC s. \<not> is_target pid' (proc s ! j))"
  then have "find_target pid' 0 (proc s) = None"
    by (intro find_target_none) (simp add: NPROC_def)
  with a show "set_priority_i PBS resume me priority pid' s = (Returns 2, s)"
    by (simp add: set_priority_i_def)
next
  assume a: "0 \<le> priority \<and> priority \<le> 100 \<and> pid' \<noteq> -1 \<and> me < NPROC s \<and> i < NPROC s
        \<and> is_target pid' (proc s ! i) \<and> (\<forall>j<i. \<not> is_target pid' (proc s ! j))
        \<and> old = Static_priority (proc s ! i) \<and> s1 = upd i (set_priority_slot priority) s"
  then have ft: "find_target pid' 0 (proc s) = Some i"
    by (intro find_target_first) (auto simp: NPROC_def)
  have pid: "pid (proc s ! i) \<noteq> -1"
    using a by (auto simp: is_target_def)
  have len: "i < length (proc s)" "me < length (proc s)"
    using a by (simp_all add: NPROC_def)
  show "proc s1 ! i = (proc s ! i)\<lparr>Static_priority := priority, running_time := -1,
                                   sleeping_time := -1\<rparr>"
    using a len by (simp add: upd_def set_priority_slot_def)
  show "\<forall>j<NPROC s. j \<noteq> i \<longrightarrow> proc s1 ! j = proc s ! j"
    using a by (simp add: upd_def)
  show "set_priority_i PBS resume me priority pid' s = (Returns old, s1)" if "priority \<le> old"
    using that a ft pid by (simp add: set_priority_i_def Let_def)
  have run: "state (proc (upd me (\<lambda>p. p\<lparr>state := RUNNABLE\<rparr>) s1) ! me) \<noteq> RUNNING"
    using a len by (simp add: upd_def)
  show "set_priority_i PBS None me priority pid' s
          = (Blocked, upd me (\<lambda>p. p\<lparr>state := RUNNABLE\<rparr>) s1)" if "old < priority"
    using that a ft pid run by (simp add: set_priority_i_def Let_def yield_def sched_def)
  show "set_priority_i PBS (Some env) me priority pid' s
          = (Returns old, env (upd me (\<lambda>p. p\<lparr>state := RUNNABLE\<rparr>) s1))" if "old < priority"
    using that a ft pid run by (simp add: set_priority_i_def Let_def yield_def sched_def)
qed

text \<open>
  C5 does not hold of the code: the comparison that guards the yield is the wrong way
  round. The target in slot 2 has static priority 60. Lowering it to 50, which makes it
  more urgent, returns 60 to the caller without a yield; raising it to 70, which makes
  it less urgent, makes the caller yield.
\<close>

theorem set_priority_i_yield_inverted:
  "is_target 8 (proc ex_table ! 2) \<and> Static_priority (proc ex_table ! 2) = 60
   \<and> set_priority_i PBS None 0 50 8 ex_table
       = (Returns 60, upd 2 (set_priority_slot 50) ex_table)
   \<and> fst (set_priority_i PBS None 0 70 8 ex_table) = Blocked
   \<and> state (proc (snd (set_priority_i PBS None 0 70 8 ex_table)) ! 0) = RUNNABLE"
  by (simp add: ex_table_def zero_proc_def is_target_def set_priority_i_def upd_def
      set_priority_slot_def yield_def sched_def)

subsection \<open>The sentinel scans\<close>

lemma sentinel_scan_run:
  assumes "m \<noteq> z" and "\<forall>p\<in>set ps. ok p \<longrightarrow> key p \<noteq> z"
  shows "\<exists>m' c'. sentinel_scan ok key z i ps m c = (m', c') \<and> m' \<noteq> z \<and> m' \<le> m
           \<and> (\<forall>p\<in>set ps. ok p \<longrightarrow> m' \<le> key p)
           \<and> ((m' = m \<and> c' = c)
               \<or> (\<exists>k<length ps. c' = Some (i + k) \<and> ok (ps ! k) \<and> key (ps ! k) = m' \<and> m' < m
                     \<and> (\<forall>j<k. ok (ps ! j) \<longrightarrow> m' < key (ps ! j))))"
  using assms
proof (induction ps arbitrary: i m c)
  case Nil
  then show ?case by simp
next
  case (Cons p ps)
  have rest: "\<forall>q\<in>set ps. ok q \<longrightarrow> key q \<noteq> z"
    using Cons.prems by simp
  show ?case
  proof (cases "ok p \<and> key p < m")
    case True
    then have kz: "key p \<noteq> z" using Cons.prems by simp
    from Cons.IH [OF kz rest, where i = "Suc i" and c = "Some i"]
    obtain m' c' where r: "sentinel_scan ok key z (Suc i) ps (key p) (Some i) = (m', c')"
      "m' \<noteq> z" "m' \<le> key p" "\<forall>q\<in>set ps. ok q \<longrightarrow> m' \<le> key q"
      "(m' = key p \<and> c' = Some i)
       \<or> (\<exists>k<length ps. c' = Some (Suc i + k) \<and> ok (ps ! k) \<and> key (ps ! k) = m' \<and> m' < key p
             \<and> (\<forall>j<k. ok (ps ! j) \<longrightarrow> m' < key (ps ! j)))"
      by blast
    have eq: "sentinel_scan ok key z i (p # ps) m c = (m', c')"
      using True r(1) Cons.prems(1) by simp
    from r(5) have "\<exists>k<length (p # ps). c' = Some (i + k) \<and> ok ((p # ps) ! k)
        \<and> key ((p # ps) ! k) = m' \<and> m' < m \<and> (\<forall>j<k. ok ((p # ps) ! j) \<longrightarrow> m' < key ((p # ps) ! j))"
    proof
      assume "m' = key p \<and> c' = Some i"
      with True show ?thesis by (intro exI [of _ 0]) simp
    next
      assume "\<exists>k<length ps. c' = Some (Suc i + k) \<and> ok (ps ! k) \<and> key (ps ! k) = m' \<and> m' < key p
             \<and> (\<forall>j<k. ok (ps ! j) \<longrightarrow> m' < key (ps ! j))"
      then obtain k where k: "k < length ps" "c' = Some (Suc i + k)" "ok (ps ! k)"
        "key (ps ! k) = m'" "m' < key p" "\<forall>j<k. ok (ps ! j) \<longrightarrow> m' < key (ps ! j)" by blast
      have "\<forall>j<Suc k. ok ((p # ps) ! j) \<longrightarrow> m' < key ((p # ps) ! j)"
        using k(5,6) by (auto simp: less_Suc_eq_0_disj)
      with k True show ?thesis by (intro exI [of _ "Suc k"]) simp
    qed
    moreover have "m' \<le> m" using r(3) True by simp
    moreover have "\<forall>q\<in>set (p # ps). ok q \<longrightarrow> m' \<le> key q" using r(3,4) by simp
    ultimately show ?thesis using eq r(2) by blast
  next
    case False
    from Cons.IH [OF Cons.prems(1) rest, where i = "Suc i" and c = c]
    obtain m' c' where r: "sentinel_scan ok key z (Suc i) ps m c = (m', c')"
      "m' \<noteq> z" "m' \<le> m" "\<forall>q\<in>set ps. ok q \<longrightarrow> m' \<le> key q"
      "(m' = m \<and> c' = c)
       \<or> (\<exists>k<length ps. c' = Some (Suc i + k) \<and> ok (ps ! k) \<and> key (ps ! k) = m' \<and> m' < m
             \<and> (\<forall>j<k. ok (ps ! j) \<longrightarrow> m' < key (ps ! j)))"
      by blast
    have eq: "sentinel_scan ok key z i (p # ps) m c = (m', c')"
      using False r(1) Cons.prems(1) by auto
    have here: "ok p \<longrightarrow> m \<le> key p" using False by auto
    from r(5) have "(m' = m \<and> c' = c) \<or> (\<exists>k<length (p # ps). c' = Some (i + k) \<and> ok ((p # ps) ! k)
        \<and> key ((p # ps) ! k) = m' \<and> m' < m \<and> (\<forall>j<k. ok ((p # ps) ! j) \<longrightarrow> m' < key ((p # ps) ! j)))"
    proof
      assume "m' = m \<and> c' = c"
      then show ?thesis by simp
    next
      assume "\<exists>k<length ps. c' = Some (Suc i + k) \<and> ok (ps ! k) \<and> key (ps ! k) = m' \<and> m' < m
             \<and> (\<forall>j<k. ok (ps ! j) \<longrightarrow> m' < key (ps ! j))"
      then obtain k where k: "k < length ps" "c' = Some (Suc i + k)" "ok (ps ! k)"
        "key (ps ! k) = m'" "m' < m" "\<forall>j<k. ok (ps ! j) \<longrightarrow> m' < key (ps ! j)" by blast
      have "\<forall>j<Suc k. ok ((p # ps) ! j) \<longrightarrow> m' < key ((p # ps) ! j)"
        using k(5,6) here by (auto simp: less_Suc_eq_0_disj)
      with k have "\<exists>k<length (p # ps). c' = Some (i + k) \<and> ok ((p # ps) ! k)
        \<and> key ((p # ps) ! k) = m' \<and> m' < m \<and> (\<forall>j<k. ok ((p # ps) ! j) \<longrightarrow> m' < key ((p # ps) ! j))"
        by (intro exI [of _ "Suc k"]) simp
      then show ?thesis by blast
    qed
    moreover have "\<forall>q\<in>set (p # ps). ok q \<longrightarrow> m' \<le> key q" using r(3,4) here by auto
    ultimately show ?thesis using eq r(2,3) by blast
  qed
qed

lemma sentinel_scan_start:
  assumes "\<forall>p\<in>set ps. ok p \<longrightarrow> key p \<noteq> z"
  shows "\<exists>m' c'. sentinel_scan ok key z i ps z c = (m', c')
           \<and> (((\<forall>p\<in>set ps. \<not> ok p) \<and> m' = z \<and> c' = c)
               \<or> (\<exists>k<length ps. c' = Some (i + k) \<and> ok (ps ! k) \<and> key (ps ! k) = m' \<and> m' \<noteq> z
                     \<and> (\<forall>p\<in>set ps. ok p \<longrightarrow> m' \<le> key p)
                     \<and> (\<forall>j<k. ok (ps ! j) \<longrightarrow> m' < key (ps ! j))))"
  using assms
proof (induction ps arbitrary: i c)
  case Nil
  then show ?case by simp
next
  case (Cons p ps)
  have rest: "\<forall>q\<in>set ps. ok q \<longrightarrow> key q \<noteq> z"
    using Cons.prems by simp
  show ?case
  proof (cases "ok p")
    case True
    then have kz: "key p \<noteq> z" using Cons.prems by simp
    from sentinel_scan_run [OF kz rest, where i = "Suc i" and c = "Some i"]
    obtain m' c' where r: "sentinel_scan ok key z (Suc i) ps (key p) (Some i) = (m', c')"
      "m' \<noteq> z" "m' \<le> key p" "\<forall>q\<in>set ps. ok q \<longrightarrow> m' \<le> key q"
      "(m' = key p \<and> c' = Some i)
       \<or> (\<exists>k<length ps. c' = Some (Suc i + k) \<and> ok (ps ! k) \<and> key (ps ! k) = m' \<and> m' < key p
             \<and> (\<forall>j<k. ok (ps ! j) \<longrightarrow> m' < key (ps ! j)))"
      by blast
    have eq: "sentinel_scan ok key z i (p # ps) z c = (m', c')"
      using True r(1) by simp
    have all: "\<forall>q\<in>set (p # ps). ok q \<longrightarrow> m' \<le> key q" using r(3,4) by simp
    from r(5) have "\<exists>k<length (p # ps). c' = Some (i + k) \<and> ok ((p # ps) ! k)
        \<and> key ((p # ps) ! k) = m' \<and> (\<forall>j<k. ok ((p # ps) ! j) \<longrightarrow> m' < key ((p # ps) ! j))"
    proof
      assume "m' = key p \<and> c' = Some i"
      with True show ?thesis by (intro exI [of _ 0]) simp
    next
      assume "\<exists>k<length ps. c' = Some (Suc i + k) \<and> ok (ps ! k) \<and> key (ps ! k) = m' \<and> m' < key p
             \<and> (\<forall>j<k. ok (ps ! j) \<longrightarrow> m' < key (ps ! j))"
      then obtain k where k: "k < length ps" "c' = Some (Suc i + k)" "ok (ps ! k)"
        "key (ps ! k) = m'" "m' < key p" "\<forall>j<k. ok (ps ! j) \<longrightarrow> m' < key (ps ! j)" by blast
      have "\<forall>j<Suc k. ok ((p # ps) ! j) \<longrightarrow> m' < key ((p # ps) ! j)"
        using k(5,6) by (auto simp: less_Suc_eq_0_disj)
      with k show ?thesis by (intro exI [of _ "Suc k"]) simp
    qed
    with eq r(2) all show ?thesis by blast
  next
    case False
    from Cons.IH [OF rest, where i = "Suc i" and c = c]
    obtain m' c' where r: "sentinel_scan ok key z (Suc i) ps z c = (m', c')"
      "((\<forall>p\<in>set ps. \<not> ok p) \<and> m' = z \<and> c' = c)
               \<or> (\<exists>k<length ps. c' = Some (Suc i + k) \<and> ok (ps ! k) \<and> key (ps ! k) = m' \<and> m' \<noteq> z
                     \<and> (\<forall>p\<in>set ps. ok p \<longrightarrow> m' \<le> key p)
                     \<and> (\<forall>j<k. ok (ps ! j) \<longrightarrow> m' < key (ps ! j)))"
      by blast
    have eq: "sentinel_scan ok key z i (p # ps) z c = (m', c')"
      using False r(1) by simp
    from r(2) have "((\<forall>q\<in>set (p # ps). \<not> ok q) \<and> m' = z \<and> c' = c)
               \<or> (\<exists>k<length (p # ps). c' = Some (i + k) \<and> ok ((p # ps) ! k) \<and> key ((p # ps) ! k) = m' \<and> m' \<noteq> z
                     \<and> (\<forall>q\<in>set (p # ps). ok q \<longrightarrow> m' \<le> key q)
                     \<and> (\<forall>j<k. ok ((p # ps) ! j) \<longrightarrow> m' < key ((p # ps) ! j)))"
    proof
      assume "(\<forall>p\<in>set ps. \<not> ok p) \<and> m' = z \<and> c' = c"
      with False show ?thesis by simp
    next
      assume "\<exists>k<length ps. c' = Some (Suc i + k) \<and> ok (ps ! k) \<and> key (ps ! k) = m' \<and> m' \<noteq> z
                     \<and> (\<forall>p\<in>set ps. ok p \<longrightarrow> m' \<le> key p)
                     \<and> (\<forall>j<k. ok (ps ! j) \<longrightarrow> m' < key (ps ! j))"
      then obtain k where k: "k < length ps" "c' = Some (Suc i + k)" "ok (ps ! k)"
        "key (ps ! k) = m'" "m' \<noteq> z" "\<forall>p\<in>set ps. ok p \<longrightarrow> m' \<le> key p"
        "\<forall>j<k. ok (ps ! j) \<longrightarrow> m' < key (ps ! j)" by blast
      have "\<forall>j<Suc k. ok ((p # ps) ! j) \<longrightarrow> m' < key ((p # ps) ! j)"
        using k(7) False by (auto simp: less_Suc_eq_0_disj)
      moreover have "\<forall>q\<in>set (p # ps). ok q \<longrightarrow> m' \<le> key q" using k(6) False by simp
      ultimately have "\<exists>k<length (p # ps). c' = Some (i + k) \<and> ok ((p # ps) ! k) \<and> key ((p # ps) ! k) = m' \<and> m' \<noteq> z
                     \<and> (\<forall>q\<in>set (p # ps). ok q \<longrightarrow> m' \<le> key q)
                     \<and> (\<forall>j<k. ok ((p # ps) ! j) \<longrightarrow> m' < key ((p # ps) ! j))"
        using k by (intro exI [of _ "Suc k"]) simp
      then show ?thesis by blast
    qed
    with eq show ?thesis by blast
  qed
qed


lemma FCFS_scan_sentinel:
  "FCFS_scan i ps m c = sentinel_scan (\<lambda>p. state p = RUNNABLE) start_time (-1) i ps m c"
  by (induction ps arbitrary: i m c) auto


subsection \<open>The FCFS scheduler\<close>

text \<open>
  C7. When some slot is \<open>RUNNABLE\<close> (and no such slot holds the scan's sentinel \<open>-1\<close>
  as its \<open>start_time\<close>, which is a tick count set by \<open>allocproc\<close>), one turn of the
  FCFS scheduler dispatches a \<open>RUNNABLE\<close> slot whose \<open>start_time\<close> is the smallest
  among the \<open>RUNNABLE\<close> slots, and the lowest such slot of the table. In particular,
  when the \<open>RUNNABLE\<close> slots were allocated at ticks 5, 3 and 9, in whatever slots
  they lie, the one of tick 3 is dispatched.
\<close>

theorem scheduler_FCFS_earliest:
  assumes "\<forall>j<NPROC s. state (proc s ! j) = RUNNABLE \<longrightarrow> start_time (proc s ! j) \<noteq> -1"
    and "\<exists>j<NPROC s. state (proc s ! j) = RUNNABLE"
  shows "\<exists>i<NPROC s. scheduler_FCFS s = (Some i, upd i (\<lambda>p. p\<lparr>state := RUNNING\<rparr>) s)
      \<and> state (proc s ! i) = RUNNABLE
      \<and> (\<forall>j<NPROC s. state (proc s ! j) = RUNNABLE \<longrightarrow>
            start_time (proc s ! i) \<le> start_time (proc s ! j))
      \<and> (\<forall>j<i. state (proc s ! j) = RUNNABLE \<longrightarrow>
            start_time (proc s ! i) < start_time (proc s ! j))
      \<and> (set (map start_time (filter (\<lambda>p. state p = RUNNABLE) (proc s))) = {5, 3, 9} \<longrightarrow>
            start_time (proc s ! i) = 3)"
proof -
  let ?ok = "\<lambda>p. state p = RUNNABLE"
  have clean: "\<forall>p\<in>set (proc s). ?ok p \<longrightarrow> start_time p \<noteq> -1"
    using assms(1) by (auto simp: NPROC_def in_set_conv_nth)
  have some: "\<not> (\<forall>p\<in>set (proc s). \<not> ?ok p)"
    using assms(2) by (auto simp: NPROC_def)
  from sentinel_scan_start [OF clean, where i = 0 and c = None] some
  obtain m' c' k where r: "sentinel_scan ?ok start_time (-1) 0 (proc s) (-1) None = (m', c')"
    "k < length (proc s)" "c' = Some k" "?ok (proc s ! k)" "start_time (proc s ! k) = m'"
    "m' \<noteq> -1" "\<forall>p\<in>set (proc s). ?ok p \<longrightarrow> m' \<le> start_time p"
    "\<forall>j<k. ?ok (proc s ! j) \<longrightarrow> m' < start_time (proc s ! j)"
    by auto
  have run: "scheduler_FCFS s = (Some k, upd k (\<lambda>p. p\<lparr>state := RUNNING\<rparr>) s)"
    using r(1,3,6) by (simp add: scheduler_FCFS_def FCFS_scan_sentinel)
  have least: "\<forall>j<NPROC s. ?ok (proc s ! j) \<longrightarrow> start_time (proc s ! k) \<le> start_time (proc s ! j)"
    using r(5,7) by (simp add: NPROC_def)
  have "start_time (proc s ! k) = 3"
    if "set (map start_time (filter (\<lambda>p. state p = RUNNABLE) (proc s))) = {5, 3, 9}"
  proof -
    have "start_time (proc s ! k) \<in> set (map start_time (filter (\<lambda>p. state p = RUNNABLE) (proc s)))"
      using r(2,4) by simp
    then have a: "start_time (proc s ! k) \<in> {5, 3, 9}" using that by simp
    have "3 \<in> set (map start_time (filter (\<lambda>p. state p = RUNNABLE) (proc s)))" using that by simp
    then obtain q where "q \<in> set (proc s)" "?ok q" "start_time q = 3" by auto
    with r(5,7) have "start_time (proc s ! k) \<le> 3" by auto
    with a show ?thesis by auto
  qed
  with run r least show ?thesis
    by (intro exI [of _ k]) (simp add: NPROC_def)
qed

theorem scheduler_FCFS_earliest_witness:
  "fst (scheduler_FCFS fcfs_ex) = Some 2
   \<and> (\<exists>i<NPROC fcfs_ex.
        scheduler_FCFS fcfs_ex = (Some i, upd i (\<lambda>p. p\<lparr>state := RUNNING\<rparr>) fcfs_ex)
        \<and> start_time (proc fcfs_ex ! i) = 3)"
proof -
  have h1: "\<forall>j<NPROC fcfs_ex. state (proc fcfs_ex ! j) = RUNNABLE \<longrightarrow>
      start_time (proc fcfs_ex ! j) \<noteq> -1"
    by (simp add: fcfs_ex_def NPROC_def zero_proc_def less_Suc_eq numeral_2_eq_2 numeral_3_eq_3
        eval_nat_numeral)
  have h2: "\<exists>j<NPROC fcfs_ex. state (proc fcfs_ex ! j) = RUNNABLE"
    by (intro exI [of _ 0]) (simp add: fcfs_ex_def NPROC_def)
  have h3: "set (map start_time (filter (\<lambda>p. state p = RUNNABLE) (proc fcfs_ex))) = {5, 3, 9}"
    by (simp add: fcfs_ex_def zero_proc_def)
  have h4: "fst (scheduler_FCFS fcfs_ex) = Some 2"
    by (simp add: fcfs_ex_def zero_proc_def scheduler_FCFS_def)
  from scheduler_FCFS_earliest [OF h1 h2] h3 h4 show ?thesis by blast
qed

subsection \<open>Division by zero in the PBS priority\<close>

text \<open>
  C9 does not hold of the code. A slot that is dispatched, goes to sleep and is woken
  within one tick has \<open>running_time = 0\<close> and \<open>sleeping_time = 0\<close>: it is not fresh,
  the divisor of the niceness is zero, and the PBS scheduler reaches the division as
  soon as it compares that slot with another runnable one.
\<close>

theorem PSBPriority_zero_divisor:
  "PBS_reach 7 div0_slot \<and> state div0_slot = RUNNABLE
   \<and> \<not> (sleeping_time div0_slot = -1 \<and> running_time div0_slot = -1)
   \<and> running_time div0_slot + sleeping_time div0_slot = 0
   \<and> PSBPriority div0_slot = Inl DivByZero
   \<and> scheduler_PBS pbs_ex = Inl DivByZero"
proof -
  let ?a = "allocproc_init PBS 7
      (zero_proc\<lparr>pid := 2, state := USED, trapframe := Some 1, pagetable := Some 2\<rparr>)"
  have a: "PBS_reach 7 ?a"
    by (rule PBS_reach.allocated) (simp_all add: zero_proc_def)
  have b: "PBS_reach 7 (?a\<lparr>state := RUNNABLE\<rparr>)"
    by (rule PBS_reach.made_runnable [OF a]) (simp add: allocproc_init_def)
  have c: "PBS_reach 7 (PBS_dispatch 7 (?a\<lparr>state := RUNNABLE\<rparr>))"
    by (rule PBS_reach.dispatched [OF b]) simp
  have d: "PBS_reach 7 (sleep_mark PBS 7 (AddrChan 1) (PBS_dispatch 7 (?a\<lparr>state := RUNNABLE\<rparr>)))"
    by (rule PBS_reach.slept [OF c]) (simp add: PBS_dispatch_def)
  have reach: "PBS_reach 7 div0_slot"
    unfolding div0_slot_def by (rule PBS_reach.woken [OF d])
  have fields: "state div0_slot = RUNNABLE" "running_time div0_slot = 0"
    "sleeping_time div0_slot = 0" "Static_priority div0_slot = 60"
    by (simp_all add: div0_slot_def wakeup_slot_def sleep_mark_def PBS_dispatch_def
        allocproc_init_def zero_proc_def)
  have prio: "PSBPriority div0_slot = Inl DivByZero"
    by (simp add: PSBPriority_def c_div_def to_int_def fields)
  have "PSBPriority (zero_proc\<lparr>state := RUNNABLE, pid := 1, Static_priority := 60,
      running_time := -1, sleeping_time := -1\<rparr>) = Inr 60"
    by (simp add: PSBPriority_def to_int_def)
  then have "PcbCompare (zero_proc\<lparr>state := RUNNABLE, pid := 1, Static_priority := 60,
      running_time := -1, sleeping_time := -1\<rparr>) div0_slot = Inl DivByZero"
    by (simp add: PcbCompare_def prio)
  then have "scheduler_PBS pbs_ex = Inl DivByZero"
    by (simp add: scheduler_PBS_def pbs_ex_def fields)
  with reach fields prio show ?thesis by simp
qed

subsection \<open>exit\<close>

lemma length_wakeup_from [simp]: "length (wakeup_from pol t me c i ps) = length ps"
  by (induction ps arbitrary: i) auto

lemma wakeup_from_nth:
  "k < length ps \<Longrightarrow>
   wakeup_from pol t me c i ps ! k =
     (if Some (i + k) \<noteq> me then wakeup_slot pol t c (ps ! k) else ps ! k)"
proof (induction ps arbitrary: i k)
  case Nil
  then show ?case by simp
next
  case (Cons p ps)
  then show ?case by (cases k) auto
qed

lemma wakeup_slot_parent [simp]: "parent (wakeup_slot pol t c p) = parent p"
  by (simp add: wakeup_slot_def Let_def)

lemma wakeup_slot_chan [simp]: "chan (wakeup_slot pol t c p) = chan p"
  by (simp add: wakeup_slot_def Let_def)

lemma wakeup_slot_state:
  "state (wakeup_slot pol t c p) =
     (if state p = SLEEPING \<and> chan p = c then RUNNABLE else state p)"
  by (simp add: wakeup_slot_def Let_def)

lemma wakeup_frame [simp]:
  "NPROC (wakeup pol me c s) = NPROC s" "initproc (wakeup pol me c s) = initproc s"
  "ticks (wakeup pol me c s) = ticks s"
  by (simp_all add: wakeup_def NPROC_def)

lemma wakeup_nth:
  "j < NPROC s \<Longrightarrow>
   proc (wakeup pol me c s) ! j =
     (if Some j \<noteq> me then wakeup_slot pol (ticks s) c (proc s ! j) else proc s ! j)"
  by (simp add: wakeup_def NPROC_def wakeup_from_nth)

lemma upd_frame [simp]:
  "NPROC (upd i f s) = NPROC s" "initproc (upd i f s) = initproc s" "ticks (upd i f s) = ticks s"
  by (simp_all add: upd_def NPROC_def)

lemma upd_nth:
  "j < NPROC s \<Longrightarrow> proc (upd i f s) ! j = (if j = i then f (proc s ! j) else proc s ! j)"
  by (simp add: upd_def NPROC_def)

lemma reparent_step_frame [simp]:
  "NPROC (reparent_step pol me p i s) = NPROC s"
  "initproc (reparent_step pol me p i s) = initproc s"
  "ticks (reparent_step pol me p i s) = ticks s"
  by (simp_all add: reparent_step_def)

lemma reparent_step_parent:
  "j < NPROC s \<Longrightarrow>
   parent (proc (reparent_step pol me p i s) ! j) =
     (if j = i \<and> parent (proc s ! i) = Some p then initproc s else parent (proc s ! j))"
  by (simp add: reparent_step_def wakeup_nth upd_nth)

lemma reparent_step_state:
  "j < NPROC s \<Longrightarrow>
   state (proc (reparent_step pol me p i s) ! j) =
     (if parent (proc s ! i) = Some p \<and> j \<noteq> me \<and> state (proc s ! j) = SLEEPING
         \<and> chan (proc s ! j) = chan_of (initproc s)
      then RUNNABLE else state (proc s ! j))"
  by (simp add: reparent_step_def wakeup_nth upd_nth wakeup_slot_state)

lemma reparent_step_chan:
  "j < NPROC s \<Longrightarrow> chan (proc (reparent_step pol me p i s) ! j) = chan (proc s ! j)"
  by (simp add: reparent_step_def wakeup_nth upd_nth)

lemma reparent_from_frame [simp]:
  "NPROC (reparent_from pol me p n i s) = NPROC s"
  "initproc (reparent_from pol me p n i s) = initproc s"
  "ticks (reparent_from pol me p n i s) = ticks s"
  by (induction n arbitrary: i s) simp_all

lemma reparent_from_parent:
  "j < NPROC s \<Longrightarrow>
   parent (proc (reparent_from pol me p n i s) ! j) =
     (if i \<le> j \<and> j < i + n \<and> parent (proc s ! j) = Some p then initproc s
      else parent (proc s ! j))"
proof (induction n arbitrary: i s)
  case 0
  then show ?case by auto
next
  case (Suc n)
  have "j < NPROC (reparent_step pol me p i s)" using Suc.prems by simp
  from Suc.IH [OF this, of "Suc i"] Suc.prems show ?case
    by (cases "j = i") (auto simp: reparent_step_parent)
qed

lemma reparent_from_chan:
  "j < NPROC s \<Longrightarrow> chan (proc (reparent_from pol me p n i s) ! j) = chan (proc s ! j)"
proof (induction n arbitrary: i s)
  case 0
  then show ?case by simp
next
  case (Suc n)
  have "j < NPROC (reparent_step pol me p i s)" using Suc.prems by simp
  from Suc.IH [OF this, of "Suc i"] Suc.prems show ?case
    by (simp add: reparent_step_chan)
qed

lemma reparent_from_state:
  "j < NPROC s \<Longrightarrow>
   state (proc (reparent_from pol me p n i s) ! j) =
     (if (\<exists>k. i \<le> k \<and> k < i + n \<and> parent (proc s ! k) = Some p) \<and> j \<noteq> me
         \<and> state (proc s ! j) = SLEEPING \<and> chan (proc s ! j) = chan_of (initproc s)
      then RUNNABLE else state (proc s ! j))"
proof (induction n arbitrary: i s)
  case 0
  then show ?case by auto
next
  case (Suc n)
  let ?s = "reparent_step pol me p i s"
  have j: "j < NPROC ?s" using Suc.prems by simp
  have later: "(\<exists>k. Suc i \<le> k \<and> k < Suc i + n \<and> parent (proc ?s ! k) = Some p)
      = (\<exists>k. Suc i \<le> k \<and> k < Suc i + n \<and> parent (proc s ! k) = Some p)"
    if "parent (proc s ! i) \<noteq> Some p"
    using that by (simp add: reparent_step_def)
  have split: "(\<exists>k. i \<le> k \<and> k < i + Suc n \<and> parent (proc s ! k) = Some p)
      = (parent (proc s ! i) = Some p
         \<or> (\<exists>k. Suc i \<le> k \<and> k < Suc i + n \<and> parent (proc s ! k) = Some p))"
    by (metis Suc_leD Suc_le_eq add_Suc add_Suc_right le_eq_less_or_eq less_add_Suc1)
  show ?case
  proof (cases "parent (proc s ! i) = Some p")
    case True
    with Suc.IH [OF j, of "Suc i"] Suc.prems split show ?thesis
      by (auto simp: reparent_step_state reparent_step_chan)
  next
    case False
    with Suc.IH [OF j, of "Suc i"] Suc.prems split later [OF False] show ?thesis
      by (auto simp: reparent_step_state reparent_step_chan)
  qed
qed

text \<open>
  C2. Let a process other than \<open>initproc\<close> call \<open>exit status\<close>. The call does not
  return: it ends in \<open>sched\<close>, and if the slot were resumed the kernel would panic. In
  the table at that point every slot whose parent was the caller has \<open>initproc\<close> as
  its parent, and no other parent link has changed; if the caller had a child, every
  other slot that slept on the channel \<open>initproc\<close> (as \<open>initproc\<close> does in \<open>wait\<close>) is
  \<open>RUNNABLE\<close>; every other slot that slept on the channel of the caller's parent (as
  the parent does in \<open>wait\<close>) is \<open>RUNNABLE\<close>; and the caller's slot holds
  \<open>xstate = status\<close>, \<open>etime = ticks\<close> and the state \<open>ZOMBIE\<close>.
\<close>

theorem exit_reparents:
  assumes "me < NPROC s" and "initproc s \<noteq> Some me"
  shows "\<exists>s'. exit pol None me status s = (Blocked, s')
      \<and> (\<forall>env. exit pol (Some env) me status s = (Panics Zombie_exit, env s'))
      \<and> (\<forall>resume. fst (exit pol resume me status s) \<noteq> Returns ())
      \<and> NPROC s' = NPROC s
      \<and> (\<forall>j<NPROC s. parent (proc s ! j) = Some me \<longrightarrow> parent (proc s' ! j) = initproc s)
      \<and> (\<forall>j<NPROC s. parent (proc s ! j) \<noteq> Some me \<longrightarrow>
            parent (proc s' ! j) = parent (proc s ! j))
      \<and> ((\<exists>k<NPROC s. parent (proc s ! k) = Some me) \<longrightarrow>
            (\<forall>j<NPROC s. j \<noteq> me \<and> state (proc s ! j) = SLEEPING
                 \<and> chan (proc s ! j) = chan_of (initproc s) \<longrightarrow>
               state (proc s' ! j) = RUNNABLE))
      \<and> (parent (proc s ! me) \<noteq> Some me \<longrightarrow>
            (\<forall>j<NPROC s. j \<noteq> me \<and> state (proc s ! j) = SLEEPING
                 \<and> chan (proc s ! j) = chan_of (parent (proc s ! me)) \<longrightarrow>
               state (proc s' ! j) = RUNNABLE))
      \<and> xstate (proc s' ! me) = status \<and> etime (proc s' ! me) = ticks s
      \<and> state (proc s' ! me) = ZOMBIE"
proof -
  define s1 where "s1 = upd me (\<lambda>p. p\<lparr>ofile := map (\<lambda>f. None) (ofile p), cwd := None\<rparr>) s"
  define s2 where "s2 = reparent pol me me s1"
  define s3 where "s3 = wakeup pol (Some me) (chan_of (parent (proc s2 ! me))) s2"
  define s4 where "s4 = upd me (\<lambda>p. p\<lparr>xstate := status, state := ZOMBIE, etime := ticks s3\<rparr>) s3"
  have n: "NPROC s1 = NPROC s" "NPROC s2 = NPROC s" "NPROC s3 = NPROC s" "NPROC s4 = NPROC s"
    by (simp_all add: s1_def s2_def s3_def s4_def reparent_def)
  have init: "initproc s1 = initproc s" "ticks s3 = ticks s"
    by (simp_all add: s1_def s2_def s3_def reparent_def)
  have p1: "parent (proc s1 ! j) = parent (proc s ! j)"
    "state (proc s1 ! j) = state (proc s ! j)" "chan (proc s1 ! j) = chan (proc s ! j)"
    if "j < NPROC s" for j
    using that by (simp_all add: s1_def upd_nth)
  have p2: "parent (proc s2 ! j) = (if parent (proc s ! j) = Some me then initproc s
      else parent (proc s ! j))" if "j < NPROC s" for j
    using that n by (simp add: s2_def reparent_def reparent_from_parent p1 init)
  have kids: "(\<exists>k. 0 \<le> k \<and> k < 0 + NPROC s1 \<and> parent (proc s1 ! k) = Some me)
      = (\<exists>k<NPROC s. parent (proc s ! k) = Some me)"
    using n p1 by auto
  have st2: "state (proc s2 ! j) =
      (if (\<exists>k<NPROC s. parent (proc s ! k) = Some me) \<and> j \<noteq> me
          \<and> state (proc s ! j) = SLEEPING \<and> chan (proc s ! j) = chan_of (initproc s)
       then RUNNABLE else state (proc s ! j))" if "j < NPROC s" for j
  proof -
    have "j < NPROC s1" using that n by simp
    from reparent_from_state [OF this, of pol me me "NPROC s1" 0]
    have "state (proc s2 ! j) =
        (if (\<exists>k. 0 \<le> k \<and> k < 0 + NPROC s1 \<and> parent (proc s1 ! k) = Some me) \<and> j \<noteq> me
            \<and> state (proc s1 ! j) = SLEEPING \<and> chan (proc s1 ! j) = chan_of (initproc s1)
         then RUNNABLE else state (proc s1 ! j))"
      unfolding s2_def reparent_def .
    then show ?thesis unfolding kids by (simp add: p1 that init)
  qed
  have ch2: "chan (proc s2 ! j) = chan (proc s ! j)" if "j < NPROC s" for j
    using that n by (simp add: s2_def reparent_def reparent_from_chan p1)
  have p3: "parent (proc s3 ! j) = parent (proc s2 ! j)" if "j < NPROC s" for j
    using that n by (simp add: s3_def wakeup_nth)
  have st3: "state (proc s3 ! j) =
      (if j \<noteq> me \<and> state (proc s2 ! j) = SLEEPING
          \<and> chan (proc s2 ! j) = chan_of (parent (proc s2 ! me))
       then RUNNABLE else state (proc s2 ! j))" if "j < NPROC s" for j
    using that n by (simp add: s3_def wakeup_nth wakeup_slot_state)
  have p4: "parent (proc s4 ! j) = parent (proc s3 ! j)" if "j < NPROC s" for j
    using that n by (simp add: s4_def upd_nth)
  have st4: "state (proc s4 ! j) = (if j = me then ZOMBIE else state (proc s3 ! j))"
    if "j < NPROC s" for j
    using that n by (simp add: s4_def upd_nth)
  have me4: "xstate (proc s4 ! me) = status" "etime (proc s4 ! me) = ticks s"
    "state (proc s4 ! me) = ZOMBIE"
    using assms(1) n init by (simp_all add: s4_def upd_nth)
  have ex: "exit pol resume me status s =
      (case sched resume me s4 of (Returns u, s5) \<Rightarrow> (Panics Zombie_exit, s5)
       | (r, s5) \<Rightarrow> (r, s5))" for resume
    using assms(2) by (simp add: exit_def Let_def s1_def s2_def s3_def s4_def)
  have e1: "exit pol None me status s = (Blocked, s4)"
    by (simp add: ex sched_def me4)
  have e2: "exit pol (Some env) me status s = (Panics Zombie_exit, env s4)" for env
    by (simp add: ex sched_def me4)
  have e3: "fst (exit pol resume me status s) \<noteq> Returns ()" for resume
    by (cases resume) (simp_all add: e1 e2)
  have a: "\<forall>j<NPROC s. parent (proc s ! j) = Some me \<longrightarrow> parent (proc s4 ! j) = initproc s"
    by (simp add: p4 p3 p2)
  have b: "\<forall>j<NPROC s. parent (proc s ! j) \<noteq> Some me \<longrightarrow>
      parent (proc s4 ! j) = parent (proc s ! j)"
    by (simp add: p4 p3 p2)
  have c: "(\<exists>k<NPROC s. parent (proc s ! k) = Some me) \<longrightarrow>
      (\<forall>j<NPROC s. j \<noteq> me \<and> state (proc s ! j) = SLEEPING
           \<and> chan (proc s ! j) = chan_of (initproc s) \<longrightarrow> state (proc s4 ! j) = RUNNABLE)"
    by (simp add: st4 st3 st2)
  have d: "parent (proc s ! me) \<noteq> Some me \<longrightarrow>
      (\<forall>j<NPROC s. j \<noteq> me \<and> state (proc s ! j) = SLEEPING
           \<and> chan (proc s ! j) = chan_of (parent (proc s ! me)) \<longrightarrow>
         state (proc s4 ! j) = RUNNABLE)"
    using assms(1) by (simp add: st4 st3 st2 ch2 p2)
  from e1 e2 e3 n(4) a b c d me4 show ?thesis by blast
qed

theorem exit_reparents_witness:
  "\<exists>s'. exit PBS None 2 5 exit_ex = (Blocked, s')
     \<and> parent (proc s' ! 3) = Some 0 \<and> parent (proc s' ! 4) = Some 0
     \<and> state (proc s' ! 0) = RUNNABLE \<and> state (proc s' ! 1) = RUNNABLE
     \<and> xstate (proc s' ! 2) = 5 \<and> etime (proc s' ! 2) = 40 \<and> state (proc s' ! 2) = ZOMBIE"
proof -
  have h: "2 < NPROC exit_ex" "initproc exit_ex \<noteq> Some 2"
    by (simp_all add: exit_ex_def NPROC_def)
  have n: "0 < NPROC exit_ex" "1 < NPROC exit_ex" "3 < NPROC exit_ex" "4 < NPROC exit_ex"
    by (simp_all add: exit_ex_def NPROC_def)
  have p: "parent (proc exit_ex ! 3) = Some 2" "parent (proc exit_ex ! 4) = Some 2"
    "parent (proc exit_ex ! 2) = Some 1" "initproc exit_ex = Some 0" "ticks exit_ex = 40"
    "state (proc exit_ex ! 0) = SLEEPING" "chan (proc exit_ex ! 0) = ProcChan 0"
    "state (proc exit_ex ! 1) = SLEEPING" "chan (proc exit_ex ! 1) = ProcChan 1"
    by (simp_all add: exit_ex_def zero_proc_def)
  from exit_reparents [OF h, of PBS 5] obtain s' where
    e: "exit PBS None 2 5 exit_ex = (Blocked, s')"
    and a: "\<forall>j<NPROC exit_ex. parent (proc exit_ex ! j) = Some 2 \<longrightarrow>
        parent (proc s' ! j) = initproc exit_ex"
    and c: "(\<exists>k<NPROC exit_ex. parent (proc exit_ex ! k) = Some 2) \<longrightarrow>
        (\<forall>j<NPROC exit_ex. j \<noteq> 2 \<and> state (proc exit_ex ! j) = SLEEPING
             \<and> chan (proc exit_ex ! j) = chan_of (initproc exit_ex) \<longrightarrow>
           state (proc s' ! j) = RUNNABLE)"
    and d: "parent (proc exit_ex ! 2) \<noteq> Some 2 \<longrightarrow>
        (\<forall>j<NPROC exit_ex. j \<noteq> 2 \<and> state (proc exit_ex ! j) = SLEEPING
             \<and> chan (proc exit_ex ! j) = chan_of (parent (proc exit_ex ! 2)) \<longrightarrow>
           state (proc s' ! j) = RUNNABLE)"
    and m: "xstate (proc s' ! 2) = 5" "etime (proc s' ! 2) = ticks exit_ex"
      "state (proc s' ! 2) = ZOMBIE"
    by blast
  have "parent (proc s' ! 3) = Some 0" "parent (proc s' ! 4) = Some 0"
    using a n p by simp_all
  moreover have "state (proc s' ! 0) = RUNNABLE"
    using c n p by auto
  moreover have "state (proc s' ! 1) = RUNNABLE"
    using d n p by auto
  ultimately show ?thesis using e m p by simp
qed

subsection \<open>The MLFQ scheduler\<close>

lemma UpgradePolicy_length:
  "UpgradePolicy t ps = Inr ps' \<Longrightarrow> length ps' = length ps"
  by (induction ps arbitrary: ps') (auto split: sum.splits)




lemma rr_scan_Some:
  "rr_scan n r ps = Some (i, c) \<Longrightarrow> r < length ps \<Longrightarrow>
   \<exists>k<n. i = (r + k) mod length ps \<and> state (ps ! i) = RUNNABLE \<and> c = (i + 1) mod length ps
     \<and> (\<forall>j<k. state (ps ! ((r + j) mod length ps)) \<noteq> RUNNABLE)"
proof (induction n arbitrary: r)
  case 0
  then show ?case by simp
next
  case (Suc n)
  show ?case
  proof (cases "state (ps ! r) = RUNNABLE")
    case True
    with Suc.prems show ?thesis by (intro exI [of _ 0]) auto
  next
    case False
    let ?r = "(r + 1) mod length ps"
    have "0 < length ps" using Suc.prems(2) by (cases ps) simp_all
    then have r': "?r < length ps" by simp
    from Suc.prems(1) False have "rr_scan n ?r ps = Some (i, c)" by simp
    from Suc.IH [OF this r'] obtain k where k: "k < n" "i = (?r + k) mod length ps"
      "state (ps ! i) = RUNNABLE" "c = (i + 1) mod length ps"
      "\<forall>j<k. state (ps ! ((?r + j) mod length ps)) \<noteq> RUNNABLE" by blast
    have shift: "(?r + j) mod length ps = (r + Suc j) mod length ps" for j
      by (simp add: mod_add_left_eq)
    have "\<forall>j<Suc k. state (ps ! ((r + j) mod length ps)) \<noteq> RUNNABLE"
    proof (intro allI impI)
      fix j assume "j < Suc k"
      show "state (ps ! ((r + j) mod length ps)) \<noteq> RUNNABLE"
      proof (cases j)
        case 0
        with False Suc.prems(2) show ?thesis by simp
      next
        case (Suc j')
        with \<open>j < Suc k\<close> k(5) have "state (ps ! ((?r + j') mod length ps)) \<noteq> RUNNABLE"
          by simp
        then have "state (ps ! ((r + Suc j') mod length ps)) \<noteq> RUNNABLE"
          unfolding shift .
        with Suc show ?thesis by simp
      qed
    qed
    with k shift [of k] show ?thesis by (intro exI [of _ "Suc k"]) simp
  qed
qed

lemma rr_scan_None:
  "rr_scan n r ps = None \<Longrightarrow> r < length ps \<Longrightarrow>
   \<forall>j<n. state (ps ! ((r + j) mod length ps)) \<noteq> RUNNABLE"
proof (induction n arbitrary: r)
  case 0
  then show ?case by simp
next
  case (Suc n)
  let ?r = "(r + 1) mod length ps"
  have "0 < length ps" using Suc.prems(2) by (cases ps) simp_all
  then have r': "?r < length ps" by simp
  from Suc.prems(1) have here: "state (ps ! r) \<noteq> RUNNABLE" and "rr_scan n ?r ps = None"
    by (auto split: if_splits)
  from Suc.IH [OF this(2) r'] have rest: "\<forall>j<n. state (ps ! ((?r + j) mod length ps)) \<noteq> RUNNABLE" .
  have shift: "(?r + j) mod length ps = (r + Suc j) mod length ps" for j
    by (simp add: mod_add_left_eq)
  show ?case
  proof (intro allI impI)
    fix j assume "j < Suc n"
    show "state (ps ! ((r + j) mod length ps)) \<noteq> RUNNABLE"
    proof (cases j)
      case 0
      with here Suc.prems(2) show ?thesis by simp
    next
      case (Suc j')
      with \<open>j < Suc n\<close> rest have "state (ps ! ((?r + j') mod length ps)) \<noteq> RUNNABLE"
        by simp
      then have "state (ps ! ((r + Suc j') mod length ps)) \<noteq> RUNNABLE"
        unfolding shift .
      with Suc show ?thesis by simp
    qed
  qed
qed

lemma rr_scan_finds:
  assumes "r < length ps" "x < length ps" "state (ps ! x) = RUNNABLE"
  shows "rr_scan (length ps) r ps \<noteq> None"
proof
  assume "rr_scan (length ps) r ps = None"
  from rr_scan_None [OF this assms(1)]
  have none: "\<forall>j<length ps. state (ps ! ((r + j) mod length ps)) \<noteq> RUNNABLE" .
  let ?j = "(x + length ps - r) mod length ps"
  have "0 < length ps" using assms(1) by (cases ps) simp_all
  then have "?j < length ps" by simp
  moreover have "(r + ?j) mod length ps = x"
  proof -
    have "(r + ?j) mod length ps = (r + (x + length ps - r)) mod length ps"
      by (simp add: mod_add_right_eq)
    also have "r + (x + length ps - r) = x + length ps" using assms(1) by simp
    finally show ?thesis using assms(2) by simp
  qed
  ultimately show False using none assms(3) by metis
qed

text \<open>
  The fuel given to the round robin is enough: more steps give the same slot, and when
  a full round finds nothing no number of steps does.
\<close>

lemma rr_scan_more_fuel:
  "rr_scan n r ps = Some x \<Longrightarrow> rr_scan (n + m) r ps = Some x"
  by (induction n arbitrary: r) (auto split: if_splits)

lemma rr_scan_never:
  assumes "rr_scan (length ps) r ps = None" "r < length ps"
  shows "rr_scan n r ps = None"
proof (rule ccontr)
  assume "rr_scan n r ps \<noteq> None"
  then obtain i c where ic: "rr_scan n r ps = Some (i, c)" by auto
  from rr_scan_Some [OF ic assms(2)] have "state (ps ! i) = RUNNABLE" "i < length ps"
    using assms(2) by (auto intro: mod_less_divisor simp: length_greater_0_conv [symmetric] simp del: length_greater_0_conv)
  with rr_scan_finds [OF assms(2)] assms(1) show False by blast
qed






end
